theory Spec2Isabelle
  imports Main "HOL-Library.Log_Nat"
begin

section \<open>Tokens\<close>

text \<open>
  The program is a scanner (\<open>Lexer\<close>) followed by a recursive-descent evaluator
  (\<open>Parser\<close>). A Go \<open>string\<close> is a sequence of bytes and \<open>l.input[l.pos]\<close> reads one
  byte, so the input is a \<open>string\<close> of HOL (a list of 8-bit characters).
\<close>

datatype TokenKind =
  TokenInvalid | TokenNumber | TokenIdentifier | TokenOperator | TokenPunctuation | TokenKeyword

record Token =
  Kind :: TokenKind
  Value :: string

section \<open>Character classes of Go's \<open>unicode\<close> package on one byte\<close>

text \<open>
  The scanner calls \<open>unicode.IsSpace\<close>, \<open>unicode.IsDigit\<close> and \<open>unicode.IsLetter\<close> on
  \<open>rune(l.input[l.pos])\<close>: the conversion of one byte, a code point between 0 and 255.
  On that range the three functions are the Latin-1 tables below: the spaces are
  tab, line feed, vertical tab, form feed, carriage return, space, U+0085 and U+00A0; the
  digits are \<open>0\<close> to \<open>9\<close>; the letters are \<open>A\<close> to \<open>Z\<close>, \<open>a\<close> to \<open>z\<close>, U+00AA,
  U+00B5, U+00BA, U+00C0 to U+00D6, U+00D8 to U+00F6 and U+00F8 to U+00FF.
\<close>

definition IsSpace :: "char \<Rightarrow> bool" where
  "IsSpace c = (let r = (of_char c :: nat) in
     (9 \<le> r \<and> r \<le> 13) \<or> r = 32 \<or> r = 133 \<or> r = 160)"

definition IsDigit :: "char \<Rightarrow> bool" where
  "IsDigit c = (let r = (of_char c :: nat) in 48 \<le> r \<and> r \<le> 57)"

definition IsLetter :: "char \<Rightarrow> bool" where
  "IsLetter c = (let r = (of_char c :: nat) in
     (65 \<le> r \<and> r \<le> 90) \<or> (97 \<le> r \<and> r \<le> 122) \<or> r = 170 \<or> r = 181 \<or> r = 186 \<or>
     (192 \<le> r \<and> r \<le> 214) \<or> (216 \<le> r \<and> r \<le> 246) \<or> (248 \<le> r \<and> r \<le> 255))"

section \<open>The scanner\<close>

record Lexer =
  input :: string
  pos :: nat
  tokens :: "Token list"
  current :: Token

text \<open>\<open>Token{}\<close>, the zero value of the struct: kind \<open>TokenInvalid\<close> (iota 0), empty text.\<close>

definition Token_zero :: Token where
  "Token_zero = \<lparr>Kind = TokenInvalid, Value = []\<rparr>"

definition NewLexer :: "string \<Rightarrow> Lexer" where
  "NewLexer inp = \<lparr>input = inp, pos = 0, tokens = [], current = Token_zero\<rparr>"

definition emitToken :: "TokenKind \<Rightarrow> string \<Rightarrow> Lexer \<Rightarrow> Lexer" where
  "emitToken kind val l = l\<lparr>tokens := tokens l @ [\<lparr>Kind = kind, Value = val\<rparr>]\<rparr>"

text \<open>
  \<open>s[a:b]\<close> panics unless \<open>a \<le> b \<le> len(s)\<close>, and \<open>s[i]\<close> unless \<open>i < len(s)\<close>. A panic is
  the value \<open>None\<close>.
\<close>

definition slice :: "string \<Rightarrow> nat \<Rightarrow> nat \<Rightarrow> string option" where
  "slice s a b = (if a \<le> b \<and> b \<le> length s then Some (take (b - a) (drop a s)) else None)"

definition byte_at :: "string \<Rightarrow> nat \<Rightarrow> char option" where
  "byte_at s i = (if i < length s then Some (s ! i) else None)"

text \<open>The \<open>for\<close> loop of \<open>readNumber\<close>: its guard tests the bound before it reads.\<close>

function readNumber_loop :: "Lexer \<Rightarrow> Lexer" where
  "readNumber_loop l =
     (if pos l < length (input l) \<and> (IsDigit (input l ! pos l) \<or> input l ! pos l = CHR ''.'')
      then readNumber_loop (l\<lparr>pos := pos l + 1\<rparr>)
      else l)"
  by pat_completeness auto
termination
  by (relation "measure (\<lambda>l. length (input l) - pos l)") auto

declare readNumber_loop.simps [simp del]

definition readNumber :: "Lexer \<Rightarrow> Lexer option" where
  "readNumber l =
     (let start = pos l; l1 = readNumber_loop l in
      case slice (input l1) start (pos l1) of
        None \<Rightarrow> None
      | Some v \<Rightarrow> Some (emitToken TokenNumber v l1))"

function readIdentifier_loop :: "Lexer \<Rightarrow> Lexer" where
  "readIdentifier_loop l =
     (if pos l < length (input l) \<and>
         (IsLetter (input l ! pos l) \<or> IsDigit (input l ! pos l) \<or> input l ! pos l = CHR ''_'')
      then readIdentifier_loop (l\<lparr>pos := pos l + 1\<rparr>)
      else l)"
  by pat_completeness auto
termination
  by (relation "measure (\<lambda>l. length (input l) - pos l)") auto

declare readIdentifier_loop.simps [simp del]

definition readIdentifier :: "Lexer \<Rightarrow> Lexer option" where
  "readIdentifier l =
     (let start = pos l; l1 = readIdentifier_loop l in
      case slice (input l1) start (pos l1) of
        None \<Rightarrow> None
      | Some v \<Rightarrow> Some (emitToken TokenIdentifier v l1))"

text \<open>The ten symbols of the \<open>switch\<close> in \<open>readSymbol\<close>.\<close>

definition symbols :: "char list" where
  "symbols = ''+-*/(){}=;''"

text \<open>
  \<open>readSymbol\<close> reads \<open>l.input[l.pos]\<close> with no bound test of its own. The \<open>default\<close>
  branch advances and returns before \<open>emitToken\<close>.
\<close>

definition readSymbol :: "Lexer \<Rightarrow> Lexer option" where
  "readSymbol l =
     (let start = pos l in
      case byte_at (input l) (pos l) of
        None \<Rightarrow> None
      | Some c \<Rightarrow>
          if c \<in> set symbols then
            (let l1 = l\<lparr>pos := pos l + 1\<rparr> in
             case slice (input l1) start (pos l1) of
               None \<Rightarrow> None
             | Some v \<Rightarrow> Some (emitToken TokenPunctuation v l1))
          else Some (l\<lparr>pos := pos l + 1\<rparr>))"

subsection \<open>The inner loops and the three readers, in closed form\<close>

lemma drop_nth_Cons: "i < length xs \<Longrightarrow> drop i xs = xs ! i # drop (Suc i) xs"
  by (simp add: Cons_nth_drop_Suc)

lemma readNumber_loop_eq:
  "readNumber_loop l =
     l\<lparr>pos := pos l + length (takeWhile (\<lambda>c. IsDigit c \<or> c = CHR ''.'') (drop (pos l) (input l)))\<rparr>"
proof (induction l rule: readNumber_loop.induct)
  case (1 l)
  show ?case
  proof (cases "pos l < length (input l)")
    case True
    with 1 show ?thesis
      by (subst readNumber_loop.simps) (simp add: drop_nth_Cons)
  next
    case False
    then show ?thesis
      by (subst readNumber_loop.simps) simp
  qed
qed

lemma readIdentifier_loop_eq:
  "readIdentifier_loop l =
     l\<lparr>pos := pos l + length (takeWhile (\<lambda>c. IsLetter c \<or> IsDigit c \<or> c = CHR ''_'')
       (drop (pos l) (input l)))\<rparr>"
proof (induction l rule: readIdentifier_loop.induct)
  case (1 l)
  show ?case
  proof (cases "pos l < length (input l)")
    case True
    with 1 show ?thesis
      by (subst readIdentifier_loop.simps) (simp add: drop_nth_Cons)
  next
    case False
    then show ?thesis
      by (subst readIdentifier_loop.simps) simp
  qed
qed

lemma slice_takeWhile:
  assumes "a \<le> length s"
  shows "slice s a (a + length (takeWhile P (drop a s))) = Some (takeWhile P (drop a s))"
proof -
  have "length (takeWhile P (drop a s)) \<le> length (drop a s)"
    by (rule length_takeWhile_le)
  with assms have "a + length (takeWhile P (drop a s)) \<le> length s"
    by simp
  moreover have "take (length (takeWhile P (drop a s))) (drop a s) = takeWhile P (drop a s)"
    by (rule takeWhile_eq_take [symmetric])
  ultimately show ?thesis
    by (simp add: slice_def)
qed

lemma readNumber_eq:
  assumes "pos l \<le> length (input l)"
  shows "readNumber l =
    Some (l\<lparr>pos := pos l + length (takeWhile (\<lambda>c. IsDigit c \<or> c = CHR ''.'') (drop (pos l) (input l))),
            tokens := tokens l @
              [\<lparr>Kind = TokenNumber,
                Value = takeWhile (\<lambda>c. IsDigit c \<or> c = CHR ''.'') (drop (pos l) (input l))\<rparr>]\<rparr>)"
  using slice_takeWhile [OF assms, of "\<lambda>c. IsDigit c \<or> c = CHR ''.''"]
  by (simp add: readNumber_def readNumber_loop_eq emitToken_def)

lemma readIdentifier_eq:
  assumes "pos l \<le> length (input l)"
  shows "readIdentifier l =
    Some (l\<lparr>pos := pos l + length (takeWhile (\<lambda>c. IsLetter c \<or> IsDigit c \<or> c = CHR ''_'')
              (drop (pos l) (input l))),
            tokens := tokens l @
              [\<lparr>Kind = TokenIdentifier,
                Value = takeWhile (\<lambda>c. IsLetter c \<or> IsDigit c \<or> c = CHR ''_'')
                  (drop (pos l) (input l))\<rparr>]\<rparr>)"
  using slice_takeWhile [OF assms, of "\<lambda>c. IsLetter c \<or> IsDigit c \<or> c = CHR ''_''"]
  by (simp add: readIdentifier_def readIdentifier_loop_eq emitToken_def)

lemma readSymbol_eq:
  assumes "pos l < length (input l)"
  shows "readSymbol l =
    Some (if input l ! pos l \<in> set symbols
          then l\<lparr>pos := pos l + 1,
                 tokens := tokens l @ [\<lparr>Kind = TokenPunctuation, Value = [input l ! pos l]\<rparr>]\<rparr>
          else l\<lparr>pos := pos l + 1\<rparr>)"
  using assms
  by (simp add: readSymbol_def byte_at_def slice_def emitToken_def drop_nth_Cons)

subsection \<open>The main loop\<close>

text \<open>
  The loop of \<open>Lex\<close>. A reader that panics ends the run with \<open>None\<close>. The loop ends
  because every reader moves \<open>pos\<close> forward.
\<close>

function Lex_loop :: "Lexer \<Rightarrow> Lexer option" where
  "Lex_loop l =
     (if pos l < length (input l) then
        (if IsSpace (input l ! pos l) then Lex_loop (l\<lparr>pos := pos l + 1\<rparr>)
         else
           case (if IsDigit (input l ! pos l) then readNumber l
                 else if IsLetter (input l ! pos l) then readIdentifier l
                 else readSymbol l) of
             None \<Rightarrow> None
           | Some l1 \<Rightarrow> Lex_loop l1)
      else Some l)"
  by pat_completeness auto
termination
proof (relation "measure (\<lambda>l. length (input l) - pos l)")
  show "wf (measure (\<lambda>l. length (input l) - pos l))"
    by simp
next
  fix l :: Lexer
  assume "pos l < length (input l)"
  then show "(l\<lparr>pos := pos l + 1\<rparr>, l) \<in> measure (\<lambda>l. length (input l) - pos l)"
    by simp
next
  fix l l1 :: Lexer
  assume lt: "pos l < length (input l)"
    and r: "(if IsDigit (input l ! pos l) then readNumber l
             else if IsLetter (input l ! pos l) then readIdentifier l
             else readSymbol l) = Some l1"
  from lt have le: "pos l \<le> length (input l)"
    by simp
  from lt r have "input l1 = input l \<and> pos l < pos l1"
    by (auto simp: readNumber_eq [OF le] readIdentifier_eq [OF le] readSymbol_eq [OF lt]
          drop_nth_Cons split: if_splits)
  with lt show "(l1, l) \<in> measure (\<lambda>l. length (input l) - pos l)"
    by (simp add: diff_less_mono2)
qed

declare Lex_loop.simps [simp del]

definition Lex :: "Lexer \<Rightarrow> Token list option" where
  "Lex l = map_option tokens (Lex_loop l)"

text \<open>\<open>main\<close> scans with \<open>NewLexer(code).Lex()\<close>; the specification calls this \<open>tokenize\<close>.\<close>

definition tokenize :: "string \<Rightarrow> Token list option" where
  "tokenize s = Lex (NewLexer s)"


subsection \<open>The loop as a recursion on the bytes that remain\<close>

text \<open>
  \<open>scan\<close> is what the loop appends to \<open>tokens\<close> from the bytes at and after \<open>pos\<close>; it is
  used in proofs only, through \<open>Lex_loop_scan\<close> and \<open>tokenize_scan\<close>.
\<close>

function scan :: "string \<Rightarrow> Token list" where
  "scan [] = []"
| "scan (c # cs) =
     (if IsSpace c then scan cs
      else if IsDigit c then
        \<lparr>Kind = TokenNumber, Value = c # takeWhile (\<lambda>c. IsDigit c \<or> c = CHR ''.'') cs\<rparr> #
        scan (dropWhile (\<lambda>c. IsDigit c \<or> c = CHR ''.'') cs)
      else if IsLetter c then
        \<lparr>Kind = TokenIdentifier,
          Value = c # takeWhile (\<lambda>c. IsLetter c \<or> IsDigit c \<or> c = CHR ''_'') cs\<rparr> #
        scan (dropWhile (\<lambda>c. IsLetter c \<or> IsDigit c \<or> c = CHR ''_'') cs)
      else if c \<in> set symbols then \<lparr>Kind = TokenPunctuation, Value = [c]\<rparr> # scan cs
      else scan cs)"
  by pat_completeness auto
termination
  by (relation "measure length") (auto simp: length_dropWhile_le le_imp_less_Suc)

lemma Lex_loop_scan:
  "pos l \<le> length (input l) \<Longrightarrow>
   Lex_loop l =
     Some (l\<lparr>pos := length (input l), tokens := tokens l @ scan (drop (pos l) (input l))\<rparr>)"
proof (induction l rule: Lex_loop.induct)
  case (1 l)
  show ?case
  proof (cases "pos l < length (input l)")
    case False
    with 1(3) show ?thesis
      by (subst Lex_loop.simps) simp
  next
    case lt: True
    then have le: "pos l \<le> length (input l)"
      by simp
    note d = drop_nth_Cons [OF lt]
    let ?c = "input l ! pos l"
    show ?thesis
    proof (cases "IsSpace ?c")
      case True
      with lt 1(1) show ?thesis
        by (subst Lex_loop.simps) (simp add: d)
    next
      case ns: False
      show ?thesis
      proof (cases "IsDigit ?c")
        case True
        let ?P = "\<lambda>c. IsDigit c \<or> c = CHR ''.''"
        let ?l1 = "l\<lparr>pos := pos l + length (takeWhile ?P (drop (pos l) (input l))),
            tokens := tokens l @ [\<lparr>Kind = TokenNumber, Value = takeWhile ?P (drop (pos l) (input l))\<rparr>]\<rparr>"
        have r: "readNumber l = Some ?l1"
          by (rule readNumber_eq [OF le])
        have b: "pos ?l1 \<le> length (input ?l1)"
          using length_takeWhile_le [of ?P "drop (pos l) (input l)"] le by simp
        have "Lex_loop l = Lex_loop ?l1"
          using lt ns True r by (subst Lex_loop.simps) simp
        also have "\<dots> = Some (?l1\<lparr>pos := length (input ?l1),
            tokens := tokens ?l1 @ scan (drop (pos ?l1) (input ?l1))\<rparr>)"
          using 1(2) [OF lt ns _ b] True r by simp
        also have "drop (pos ?l1) (input ?l1) = dropWhile ?P (drop (pos l) (input l))"
          by (simp add: dropWhile_eq_drop add.commute)
        finally show ?thesis
          using True ns by (simp add: d)
      next
        case nd: False
        show ?thesis
        proof (cases "IsLetter ?c")
          case True
          let ?P = "\<lambda>c. IsLetter c \<or> IsDigit c \<or> c = CHR ''_''"
          let ?l1 = "l\<lparr>pos := pos l + length (takeWhile ?P (drop (pos l) (input l))),
              tokens := tokens l @
                [\<lparr>Kind = TokenIdentifier, Value = takeWhile ?P (drop (pos l) (input l))\<rparr>]\<rparr>"
          have r: "readIdentifier l = Some ?l1"
            by (rule readIdentifier_eq [OF le])
          have b: "pos ?l1 \<le> length (input ?l1)"
            using length_takeWhile_le [of ?P "drop (pos l) (input l)"] le by simp
          have "Lex_loop l = Lex_loop ?l1"
            using lt ns nd True r by (subst Lex_loop.simps) simp
          also have "\<dots> = Some (?l1\<lparr>pos := length (input ?l1),
              tokens := tokens ?l1 @ scan (drop (pos ?l1) (input ?l1))\<rparr>)"
            using 1(2) [OF lt ns _ b] nd True r by simp
          also have "drop (pos ?l1) (input ?l1) = dropWhile ?P (drop (pos l) (input l))"
            by (simp add: dropWhile_eq_drop add.commute)
          finally show ?thesis
            using True nd ns by (simp add: d)
        next
          case nl: False
          let ?l1 = "if ?c \<in> set symbols
            then l\<lparr>pos := pos l + 1,
                   tokens := tokens l @ [\<lparr>Kind = TokenPunctuation, Value = [?c]\<rparr>]\<rparr>
            else l\<lparr>pos := pos l + 1\<rparr>"
          have r: "readSymbol l = Some ?l1"
            by (rule readSymbol_eq [OF lt])
          have b: "pos ?l1 \<le> length (input ?l1)"
            using lt by simp
          have "Lex_loop l = Lex_loop ?l1"
            using lt ns nd nl r by (subst Lex_loop.simps) simp
          also have "\<dots> = Some (?l1\<lparr>pos := length (input ?l1),
              tokens := tokens ?l1 @ scan (drop (pos ?l1) (input ?l1))\<rparr>)"
            using 1(2) [OF lt ns _ b] nd nl r by simp
          finally show ?thesis
            using nl nd ns by (simp add: d)
        qed
      qed
    qed
  qed
qed

lemma tokenize_scan: "tokenize s = Some (scan s)"
  by (simp add: tokenize_def Lex_def NewLexer_def Lex_loop_scan)

section \<open>Properties of the scanner\<close>


subsection \<open>Facts about the character classes\<close>

lemma IsDigit_not_IsSpace: "IsDigit c \<Longrightarrow> \<not> IsSpace c"
  by (auto simp: IsDigit_def IsSpace_def Let_def)

lemma IsLetter_not_IsSpace: "IsLetter c \<Longrightarrow> \<not> IsSpace c"
  by (auto simp: IsLetter_def IsSpace_def Let_def)

lemma IsDigit_not_IsLetter: "IsDigit c \<Longrightarrow> \<not> IsLetter c"
  by (auto simp: IsLetter_def IsDigit_def Let_def)

lemma symbols_not_IsSpace: "c \<in> set symbols \<Longrightarrow> \<not> IsSpace c"
  by (auto simp: symbols_def IsSpace_def)

lemma dot_underscore_classes:
  "\<not> IsSpace CHR ''.''" "\<not> IsSpace CHR ''_''" "\<not> IsDigit CHR ''_''" "\<not> IsLetter CHR ''_''"
  "CHR ''_'' \<notin> set symbols" "CHR ''.'' \<notin> set symbols"
  by (simp_all add: IsSpace_def IsDigit_def IsLetter_def symbols_def)

subsection \<open>Kinds\<close>

lemma scan_kinds:
  "t \<in> set (scan s) \<Longrightarrow> Kind t = TokenNumber \<or> Kind t = TokenIdentifier \<or> Kind t = TokenPunctuation"
  by (induction s arbitrary: t rule: scan.induct) (auto split: if_splits)

subsection \<open>Texts\<close>

lemma number_run_no_space:
  "x \<in> set (takeWhile (\<lambda>c. IsDigit c \<or> c = CHR ''.'') cs) \<Longrightarrow> \<not> IsSpace x"
  by (drule set_takeWhileD) (auto simp: IsDigit_not_IsSpace dot_underscore_classes)

lemma identifier_run_no_space:
  "x \<in> set (takeWhile (\<lambda>c. IsLetter c \<or> IsDigit c \<or> c = CHR ''_'') cs) \<Longrightarrow> \<not> IsSpace x"
  by (drule set_takeWhileD)
    (auto simp: IsDigit_not_IsSpace IsLetter_not_IsSpace dot_underscore_classes)

lemma scan_text:
  "t \<in> set (scan s) \<Longrightarrow> Value t \<noteq> [] \<and> (\<forall>c \<in> set (Value t). \<not> IsSpace c)"
proof (induction s arbitrary: t rule: scan.induct)
  case 1
  then show ?case by simp
next
  case (2 c cs)
  show ?case
  proof (cases "IsSpace c")
    case True
    with 2(1) [OF True] 2(6) show ?thesis by simp
  next
    case ns: False
    show ?thesis
    proof (cases "IsDigit c")
      case True
      from 2(6) ns True
      have "t = \<lparr>Kind = TokenNumber, Value = c # takeWhile (\<lambda>c. IsDigit c \<or> c = CHR ''.'') cs\<rparr> \<or>
          t \<in> set (scan (dropWhile (\<lambda>c. IsDigit c \<or> c = CHR ''.'') cs))"
        by simp
      then show ?thesis
      proof
        assume "t = \<lparr>Kind = TokenNumber, Value = c # takeWhile (\<lambda>c. IsDigit c \<or> c = CHR ''.'') cs\<rparr>"
        with ns show ?thesis
          by (simp add: number_run_no_space)
      next
        assume "t \<in> set (scan (dropWhile (\<lambda>c. IsDigit c \<or> c = CHR ''.'') cs))"
        then show ?thesis
          by (rule 2(2) [OF ns True])
      qed
    next
      case nd: False
      show ?thesis
      proof (cases "IsLetter c")
        case True
        from 2(6) ns nd True
        have "t = \<lparr>Kind = TokenIdentifier,
              Value = c # takeWhile (\<lambda>c. IsLetter c \<or> IsDigit c \<or> c = CHR ''_'') cs\<rparr> \<or>
            t \<in> set (scan (dropWhile (\<lambda>c. IsLetter c \<or> IsDigit c \<or> c = CHR ''_'') cs))"
          by simp
        then show ?thesis
        proof
          assume "t = \<lparr>Kind = TokenIdentifier,
              Value = c # takeWhile (\<lambda>c. IsLetter c \<or> IsDigit c \<or> c = CHR ''_'') cs\<rparr>"
          with ns show ?thesis
            by (simp add: identifier_run_no_space)
        next
          assume "t \<in> set (scan (dropWhile (\<lambda>c. IsLetter c \<or> IsDigit c \<or> c = CHR ''_'') cs))"
          then show ?thesis
            by (rule 2(3) [OF ns nd True])
        qed
      next
        case nl: False
        show ?thesis
        proof (cases "c \<in> set symbols")
          case True
          from 2(6) ns nd nl True
          have "t = \<lparr>Kind = TokenPunctuation, Value = [c]\<rparr> \<or> t \<in> set (scan cs)"
            by simp
          then show ?thesis
          proof
            assume "t = \<lparr>Kind = TokenPunctuation, Value = [c]\<rparr>"
            with ns show ?thesis by simp
          next
            assume "t \<in> set (scan cs)"
            then show ?thesis
              by (rule 2(4) [OF ns nd nl True])
          qed
        next
          case False
          with 2(6) ns nd nl have "t \<in> set (scan cs)"
            by simp
          then show ?thesis
            by (rule 2(5) [OF ns nd nl False])
        qed
      qed
    qed
  qed
qed

subsection \<open>Where the texts lie in the input\<close>

text \<open>
  A byte is \<open>skipped\<close> when the loop passes it outside a token: a space, or a byte for
  which \<open>readSymbol\<close> takes its \<open>default\<close> branch. \<open>weave gaps ts\<close> is gap, text,
  gap, text, and so on. \<open>tiling s ts\<close> says that the input is the texts of \<open>ts\<close> in
  order, each one a run of consecutive bytes of \<open>s\<close>, with only skipped bytes before,
  between and after them: the spans of the texts are disjoint, follow the order of the
  tokens, and leave out nothing but skipped bytes. That a byte of a word or a number is
  \<open>skipped\<close> when it stands where no token can start (an underscore or a dot at the top of
  the loop) is part of the definition: such a byte satisfies the second disjunct.
\<close>

definition skipped :: "char \<Rightarrow> bool" where
  "skipped c = (IsSpace c \<or> (\<not> IsDigit c \<and> \<not> IsLetter c \<and> c \<notin> set symbols))"

fun weave :: "string list \<Rightarrow> Token list \<Rightarrow> string" where
  "weave (g # gs) (t # ts) = g @ Value t @ weave gs ts"
| "weave gs ts = []"

definition tiling :: "string \<Rightarrow> Token list \<Rightarrow> bool" where
  "tiling s ts =
     (\<exists>gaps rest. length gaps = length ts \<and> s = weave gaps ts @ rest \<and>
        list_all (list_all skipped) (rest # gaps))"

lemma tiling_Nil: "list_all skipped s \<Longrightarrow> tiling s []"
  by (simp add: tiling_def)

lemma tiling_skip:
  assumes "skipped c" and "tiling cs ts"
  shows "tiling (c # cs) ts"
proof (cases ts)
  case Nil
  with assms show ?thesis
    by (auto simp: tiling_def)
next
  case (Cons t ts')
  from assms(2) obtain gaps rest where g: "length gaps = length ts" "cs = weave gaps ts @ rest"
    "list_all (list_all skipped) (rest # gaps)"
    by (auto simp: tiling_def)
  from g(1) Cons obtain g0 gs where gs: "gaps = g0 # gs"
    by (cases gaps) auto
  have "length ((c # g0) # gs) = length ts"
    using g(1) gs by simp
  moreover have "c # cs = weave ((c # g0) # gs) ts @ rest"
    using g(2) gs Cons by simp
  moreover have "list_all (list_all skipped) (rest # (c # g0) # gs)"
    using g(3) gs assms(1) by simp
  ultimately show ?thesis
    unfolding tiling_def by blast
qed

lemma tiling_token:
  assumes "tiling cs ts"
  shows "tiling (Value t @ cs) (t # ts)"
proof -
  from assms obtain gaps rest where g: "length gaps = length ts" "cs = weave gaps ts @ rest"
    "list_all (list_all skipped) (rest # gaps)"
    by (auto simp: tiling_def)
  have "length ([] # gaps) = length (t # ts)"
    using g(1) by simp
  moreover have "Value t @ cs = weave ([] # gaps) (t # ts) @ rest"
    using g(2) by simp
  moreover have "list_all (list_all skipped) (rest # [] # gaps)"
    using g(3) by simp
  ultimately show ?thesis
    unfolding tiling_def by blast
qed

lemma scan_tiling: "tiling s (scan s)"
proof (induction s rule: scan.induct)
  case 1
  show ?case by (simp add: tiling_Nil)
next
  case (2 c cs)
  show ?case
  proof (cases "IsSpace c")
    case True
    with 2(1) show ?thesis
      by (simp add: tiling_skip skipped_def)
  next
    case ns: False
    show ?thesis
    proof (cases "IsDigit c")
      case True
      let ?P = "\<lambda>c. IsDigit c \<or> c = CHR ''.''"
      let ?t = "\<lparr>Kind = TokenNumber, Value = c # takeWhile ?P cs\<rparr>"
      have "tiling (Value ?t @ dropWhile ?P cs) (?t # scan (dropWhile ?P cs))"
        using 2(2) [OF ns True] by (rule tiling_token)
      with ns True show ?thesis by simp
    next
      case nd: False
      show ?thesis
      proof (cases "IsLetter c")
        case True
        let ?P = "\<lambda>c. IsLetter c \<or> IsDigit c \<or> c = CHR ''_''"
        let ?t = "\<lparr>Kind = TokenIdentifier, Value = c # takeWhile ?P cs\<rparr>"
        have "tiling (Value ?t @ dropWhile ?P cs) (?t # scan (dropWhile ?P cs))"
          using 2(3) [OF ns nd True] by (rule tiling_token)
        with ns nd True show ?thesis by simp
      next
        case nl: False
        show ?thesis
        proof (cases "c \<in> set symbols")
          case True
          let ?t = "\<lparr>Kind = TokenPunctuation, Value = [c]\<rparr>"
          have "tiling (Value ?t @ cs) (?t # scan cs)"
            using 2(4) [OF ns nd nl True] by (rule tiling_token)
          with ns nd nl True show ?thesis by simp
        next
          case False
          with ns nd nl 2(5) show ?thesis
            by (simp add: tiling_skip skipped_def)
        qed
      qed
    qed
  qed
qed


subsection \<open>The texts put together\<close>

text \<open>
  \<open>in_alphabet\<close> is the alphabet of claim C3, with the classes as the scanner computes
  them on one byte. \<open>strip_stray False s\<close> is \<open>s\<close> without the underscores that do not
  continue an identifier: \<open>in_word\<close> holds after a letter and stays through digits and
  underscores; a digit outside a word leaves it unset; any other byte unsets it.
\<close>

definition in_alphabet :: "char \<Rightarrow> bool" where
  "in_alphabet c = (IsSpace c \<or> IsDigit c \<or> IsLetter c \<or> c = CHR ''_'' \<or> c \<in> set symbols)"

fun strip_stray :: "bool \<Rightarrow> string \<Rightarrow> string" where
  "strip_stray in_word [] = []"
| "strip_stray in_word (c # cs) =
     (if IsLetter c then c # strip_stray True cs
      else if IsDigit c then c # strip_stray in_word cs
      else if c = CHR ''_'' then (if in_word then c # strip_stray True cs else strip_stray False cs)
      else c # strip_stray False cs)"

lemma strip_stray_digits:
  "\<forall>c \<in> set ds. IsDigit c \<Longrightarrow> strip_stray b (ds @ r) = ds @ strip_stray b r"
  by (induction ds) (auto simp: IsDigit_not_IsLetter)

lemma strip_stray_word:
  "\<forall>c \<in> set ws. IsLetter c \<or> IsDigit c \<or> c = CHR ''_'' \<Longrightarrow>
   strip_stray True (ws @ r) = ws @ strip_stray True r"
  by (induction ws) auto

lemma strip_stray_flag:
  "r = [] \<or> \<not> (IsLetter (hd r) \<or> IsDigit (hd r) \<or> hd r = CHR ''_'') \<Longrightarrow>
   strip_stray b r = strip_stray False r"
  by (cases r) auto

lemma dot_not_in_alphabet: "\<not> in_alphabet CHR ''.''"
  by (simp add: in_alphabet_def IsSpace_def IsDigit_def IsLetter_def symbols_def)

lemma filter_no_space: "\<forall>c \<in> set xs. \<not> IsSpace c \<Longrightarrow> filter (\<lambda>c. \<not> IsSpace c) (xs @ ys) = xs @ filter (\<lambda>c. \<not> IsSpace c) ys"
  by (induction xs) auto

lemma scan_concat:
  "\<forall>c \<in> set s. in_alphabet c \<Longrightarrow>
   concat (map Value (scan s)) = filter (\<lambda>c. \<not> IsSpace c) (strip_stray False s)"
proof (induction s rule: scan.induct)
  case 1
  show ?case by simp
next
  case (2 c cs)
  from 2(6) have ac: "in_alphabet c" and acs: "\<forall>c \<in> set cs. in_alphabet c"
    by simp_all
  show ?case
  proof (cases "IsSpace c")
    case True
    then have "\<not> IsLetter c" "\<not> IsDigit c" "c \<noteq> CHR ''_''"
      using IsLetter_not_IsSpace IsDigit_not_IsSpace dot_underscore_classes(2) by auto
    with True 2(1) [OF True acs] show ?thesis by simp
  next
    case ns: False
    show ?thesis
    proof (cases "IsDigit c")
      case True
      let ?P = "\<lambda>c. IsDigit c \<or> c = CHR ''.''"
      have tw: "\<forall>x \<in> set (takeWhile ?P cs). IsDigit x"
      proof
        fix x assume "x \<in> set (takeWhile ?P cs)"
        then have "x \<in> set cs" "?P x"
          by (auto dest: set_takeWhileD)
        with acs dot_not_in_alphabet show "IsDigit x"
          by auto
      qed
      have dw: "\<forall>x \<in> set (dropWhile ?P cs). in_alphabet x"
        using acs by (auto dest: set_dropWhileD)
      have "strip_stray False cs = takeWhile ?P cs @ strip_stray False (dropWhile ?P cs)"
        using strip_stray_digits [OF tw, of False "dropWhile ?P cs"] by simp
      then have "strip_stray False (c # cs) =
          (c # takeWhile ?P cs) @ strip_stray False (dropWhile ?P cs)"
        using True by (simp add: IsDigit_not_IsLetter)
      then have "filter (\<lambda>c. \<not> IsSpace c) (strip_stray False (c # cs)) =
          (c # takeWhile ?P cs) @ filter (\<lambda>c. \<not> IsSpace c) (strip_stray False (dropWhile ?P cs))"
        using ns tw by (simp add: filter_no_space IsDigit_not_IsSpace)
      with ns True 2(2) [OF ns True dw] show ?thesis
        by simp
    next
      case nd: False
      show ?thesis
      proof (cases "IsLetter c")
        case True
        let ?P = "\<lambda>c. IsLetter c \<or> IsDigit c \<or> c = CHR ''_''"
        have tw: "\<forall>x \<in> set (takeWhile ?P cs). ?P x"
          by (auto dest: set_takeWhileD)
        have tws: "\<forall>x \<in> set (takeWhile ?P cs). \<not> IsSpace x"
          by (auto simp: identifier_run_no_space)
        have dw: "\<forall>x \<in> set (dropWhile ?P cs). in_alphabet x"
          using acs by (auto dest: set_dropWhileD)
        have fl: "strip_stray True (dropWhile ?P cs) = strip_stray False (dropWhile ?P cs)"
          using hd_dropWhile [of ?P cs] by (intro strip_stray_flag) blast
        have "strip_stray True cs = takeWhile ?P cs @ strip_stray False (dropWhile ?P cs)"
          using strip_stray_word [OF tw, of "dropWhile ?P cs"] fl by simp
        then have "strip_stray False (c # cs) =
            (c # takeWhile ?P cs) @ strip_stray False (dropWhile ?P cs)"
          using True by simp
        then have "filter (\<lambda>c. \<not> IsSpace c) (strip_stray False (c # cs)) =
            (c # takeWhile ?P cs) @ filter (\<lambda>c. \<not> IsSpace c) (strip_stray False (dropWhile ?P cs))"
          using ns tws by (simp add: filter_no_space)
        with ns nd True 2(3) [OF ns nd True dw] show ?thesis
          by simp
      next
        case nl: False
        show ?thesis
        proof (cases "c \<in> set symbols")
          case True
          then have "c \<noteq> CHR ''_''"
            using dot_underscore_classes(5) by auto
          with ns nd nl True 2(4) [OF ns nd nl True acs] show ?thesis
            by simp
        next
          case False
          with ac ns nd nl have "c = CHR ''_''"
            by (simp add: in_alphabet_def)
          with ns nd nl False 2(5) [OF ns nd nl False acs] show ?thesis
            by simp
        qed
      qed
    qed
  qed
qed

subsection \<open>An unrecognised byte\<close>

lemma unrecognised_step:
  assumes "pos l < length (input l)" "\<not> IsSpace (input l ! pos l)" "\<not> IsDigit (input l ! pos l)"
    "\<not> IsLetter (input l ! pos l)" "input l ! pos l \<notin> set symbols"
  shows "readSymbol l = Some (l\<lparr>pos := pos l + 1\<rparr>) \<and> Lex_loop l = Lex_loop (l\<lparr>pos := pos l + 1\<rparr>)"
  using assms by (subst Lex_loop.simps) (simp add: readSymbol_eq)

section \<open>The claims about the scanner\<close>

subsection \<open>Three inputs\<close>

text \<open>
  Claim C9. \<open>tokenize("12.5")\<close> is one Number token with text \<open>12.5\<close>;
  \<open>tokenize("x_1")\<close> is one Identifier token with text \<open>x_1\<close>; \<open>tokenize("=+")\<close> is
  two Punctuation tokens with texts \<open>=\<close> and \<open>+\<close>, in this order.
\<close>

theorem tokenize_examples:
  "tokenize ''12.5'' = Some [\<lparr>Kind = TokenNumber, Value = ''12.5''\<rparr>] \<and>
   tokenize ''x_1'' = Some [\<lparr>Kind = TokenIdentifier, Value = ''x_1''\<rparr>] \<and>
   tokenize ''=+'' =
     Some [\<lparr>Kind = TokenPunctuation, Value = ''=''\<rparr>, \<lparr>Kind = TokenPunctuation, Value = ''+''\<rparr>]"
  by code_simp

subsection \<open>Bytes, not code points\<close>

text \<open>
  Claim C10. The scanner classifies one byte at a time. The letter U+00E9 is the two
  bytes 0xC3 0xA9 in UTF-8. The byte 0xC3, read as a code point, is a letter and 0xA9
  is neither a letter, a digit, an underscore, a space nor a symbol of the switch: the
  scanner emits one Identifier token whose text is the single byte 0xC3, which is not a
  complete code point of the input, and the byte 0xA9 yields no token.
\<close>

theorem tokenize_splits_utf8:
  "tokenize [CHR 0xC3, CHR 0xA9] = Some [\<lparr>Kind = TokenIdentifier, Value = [CHR 0xC3]\<rparr>] \<and>
   IsLetter (CHR 0xC3) \<and>
   readSymbol \<lparr>input = [CHR 0xC3, CHR 0xA9], pos = 1,
       tokens = [\<lparr>Kind = TokenIdentifier, Value = [CHR 0xC3]\<rparr>], current = Token_zero\<rparr> =
     Some \<lparr>input = [CHR 0xC3, CHR 0xA9], pos = 2,
       tokens = [\<lparr>Kind = TokenIdentifier, Value = [CHR 0xC3]\<rparr>], current = Token_zero\<rparr>"
  by code_simp

subsection \<open>The texts of the tokens and the input\<close>

text \<open>
  Claim C3, as stated: for every input made of spaces, digits, letters, underscores and
  the ten symbols only, the texts of the tokens, put together in order, are the input
  without its spaces. This fails on the input \<open>_\<close>: an underscore where a token would
  start is neither a letter, a digit nor a symbol of the switch, \<open>readSymbol\<close> consumes
  it in its \<open>default\<close> branch, and it is in no token.
\<close>

theorem tokenize_concat_counterexample:
  "list_all in_alphabet ''_'' \<and> tokenize ''_'' = Some [] \<and>
   concat (map Value (the (tokenize ''_''))) \<noteq> filter (\<lambda>c. \<not> IsSpace c) ''_''"
  by code_simp

text \<open>
  Claim C3, amended: for every input made of spaces, digits, letters, underscores and the
  ten symbols only (each byte classified as the scanner classifies it), the scanner
  returns, and the texts of its tokens, put together in order, are the input without its
  spaces and without the underscores that do not continue an identifier.
\<close>

theorem tokenize_concat:
  assumes "\<forall>c \<in> set s. in_alphabet c"
  shows "\<exists>ts. tokenize s = Some ts \<and>
    concat (map Value ts) = filter (\<lambda>c. \<not> IsSpace c) (strip_stray False s)"
  using scan_concat [OF assms] by (simp add: tokenize_scan)

theorem tokenize_concat_witness:
  "list_all in_alphabet ''a_1 = _b2'' \<and>
   (\<exists>ts. tokenize ''a_1 = _b2'' = Some ts \<and> concat (map Value ts) = ''a_1=b2'')"
proof -
  have h: "\<forall>c \<in> set ''a_1 = _b2''. in_alphabet c"
    by (simp add: in_alphabet_def IsSpace_def IsDigit_def IsLetter_def symbols_def)
  have "filter (\<lambda>c. \<not> IsSpace c) (strip_stray False ''a_1 = _b2'') = ''a_1=b2''"
    by (simp add: IsSpace_def IsDigit_def IsLetter_def)
  with tokenize_concat [OF h] h show ?thesis
    by (simp add: list_all_iff)
qed

subsection \<open>The texts are disjoint runs of the input\<close>

text \<open>
  Claim C7. For every input the scanner returns tokens whose texts are not empty and
  hold no space, and the input is these texts in order, each a run of consecutive bytes,
  with only skipped bytes (spaces and bytes that yield no token) before, between and
  after them: the spans do not overlap and follow the order of the tokens.
\<close>

theorem token_texts_tile_input:
  "\<exists>ts. tokenize s = Some ts \<and>
     (\<forall>t \<in> set ts. Value t \<noteq> [] \<and> (\<forall>c \<in> set (Value t). \<not> IsSpace c)) \<and>
     tiling s ts"
  using scan_text [of _ s] scan_tiling [of s] by (simp add: tokenize_scan)

theorem token_texts_tile_input_witness:
  "\<exists>ts. tokenize ''ab  12#;'' = Some ts \<and> length ts = 3 \<and>
     list_all (\<lambda>t. Value t \<noteq> [] \<and> list_all (\<lambda>c. \<not> IsSpace c) (Value t)) ts \<and>
     tiling ''ab  12#;'' ts"
proof -
  have "tokenize ''ab  12#;'' =
      Some [\<lparr>Kind = TokenIdentifier, Value = ''ab''\<rparr>, \<lparr>Kind = TokenNumber, Value = ''12''\<rparr>,
        \<lparr>Kind = TokenPunctuation, Value = '';''\<rparr>]"
    by code_simp
  with token_texts_tile_input [of "''ab  12#;''"] show ?thesis
    by (auto simp: list_all_iff)
qed

subsection \<open>The scanner always returns\<close>

text \<open>
  Claim C8, as stated: the scanner always returns, and any single character that is not
  whitespace, a digit, a letter or one of the ten symbols is consumed, the offset moving
  exactly one position past it, and produces no token. The second part fails for
  characters of more than one byte. The copyright sign U+00A9 is the bytes 0xC2 0xA9 and
  the euro sign U+20AC is 0xE2 0x82 0xAC; neither is whitespace, a digit, a letter or a
  symbol of the switch. The scanner reads the first byte of each as the code point of a
  letter (U+00C2, U+00E2) and emits an Identifier token with that byte; the offset moves
  two and three positions.
\<close>

theorem unrecognised_character_counterexample:
  "tokenize [CHR 0xC2, CHR 0xA9] = Some [\<lparr>Kind = TokenIdentifier, Value = [CHR 0xC2]\<rparr>] \<and>
   Lex_loop (NewLexer [CHR 0xC2, CHR 0xA9]) =
     Some \<lparr>input = [CHR 0xC2, CHR 0xA9], pos = 2,
       tokens = [\<lparr>Kind = TokenIdentifier, Value = [CHR 0xC2]\<rparr>], current = Token_zero\<rparr> \<and>
   tokenize [CHR 0xE2, CHR 0x82, CHR 0xAC] = Some [\<lparr>Kind = TokenIdentifier, Value = [CHR 0xE2]\<rparr>]"
  by code_simp

text \<open>
  Claim C8, amended: for every input the scanner ends and returns a token sequence (no
  read is out of range). A single byte that, read as a code point, is neither a space, a
  digit, a letter nor one of the ten symbols is consumed by \<open>readSymbol\<close>, which moves
  \<open>pos\<close> exactly one position forward and emits nothing, and the loop goes on from there.
  The input \<open>#\<close> yields no token.
\<close>

theorem tokenize_total:
  "(\<exists>ts. tokenize s = Some ts) \<and>
   (pos l < length (input l) \<and> \<not> IsSpace (input l ! pos l) \<and> \<not> IsDigit (input l ! pos l) \<and>
    \<not> IsLetter (input l ! pos l) \<and> input l ! pos l \<notin> set symbols \<longrightarrow>
      readSymbol l = Some (l\<lparr>pos := pos l + 1\<rparr>) \<and> Lex_loop l = Lex_loop (l\<lparr>pos := pos l + 1\<rparr>)) \<and>
   tokenize ''#'' = Some []"
proof (intro conjI impI)
  show "\<exists>ts. tokenize s = Some ts"
    by (simp add: tokenize_scan)
next
  assume "pos l < length (input l) \<and> \<not> IsSpace (input l ! pos l) \<and> \<not> IsDigit (input l ! pos l) \<and>
    \<not> IsLetter (input l ! pos l) \<and> input l ! pos l \<notin> set symbols"
  then show "readSymbol l = Some (l\<lparr>pos := pos l + 1\<rparr>)"
    and "Lex_loop l = Lex_loop (l\<lparr>pos := pos l + 1\<rparr>)"
    using unrecognised_step [of l] by simp_all
next
  show "tokenize ''#'' = Some []"
    by code_simp
qed

theorem tokenize_total_witness:
  "readSymbol (NewLexer ''#a'') = Some ((NewLexer ''#a'')\<lparr>pos := 1\<rparr>) \<and>
   Lex_loop (NewLexer ''#a'') = Lex_loop ((NewLexer ''#a'')\<lparr>pos := 1\<rparr>) \<and>
   tokenize ''#a'' = Some [\<lparr>Kind = TokenIdentifier, Value = ''a''\<rparr>]"
proof -
  have "pos (NewLexer ''#a'') < length (input (NewLexer ''#a'')) \<and>
      \<not> IsSpace (input (NewLexer ''#a'') ! pos (NewLexer ''#a'')) \<and>
      \<not> IsDigit (input (NewLexer ''#a'') ! pos (NewLexer ''#a'')) \<and>
      \<not> IsLetter (input (NewLexer ''#a'') ! pos (NewLexer ''#a'')) \<and>
      input (NewLexer ''#a'') ! pos (NewLexer ''#a'') \<notin> set symbols"
    by (simp add: NewLexer_def IsSpace_def IsDigit_def IsLetter_def symbols_def)
  moreover have "tokenize ''#a'' = Some [\<lparr>Kind = TokenIdentifier, Value = ''a''\<rparr>]"
    by code_simp
  ultimately show ?thesis
    using tokenize_total [of "''#a''" "NewLexer ''#a''"] by (simp add: NewLexer_def)
qed

section \<open>Go's \<open>float64\<close>, \<open>strconv.ParseFloat\<close> and the verb \<open>%f\<close>\<close>

text \<open>
  The evaluator computes with \<open>float64\<close>, reads numbers with \<open>strconv.ParseFloat(s, 64)\<close>
  and prints them with the verb \<open>%f\<close> of \<open>fmt.Printf\<close>. These belong to Go, not to the
  program, so the evaluator takes them as a parameter \<open>L\<close>: the type \<open>'f\<close> of the values and
  a record of the operations it uses. \<open>ParseFloat\<close> returns the pair that Go returns, a
  value and an optional error (\<open>None\<close> is \<open>nil\<close>); \<open>fzero\<close> is the zero value of
  \<open>var result float64\<close>; \<open>fadd\<close>, \<open>fsub\<close>, \<open>fmul\<close> and \<open>fquo\<close> are \<open>+=\<close>, \<open>-=\<close>,
  \<open>*=\<close> and \<open>/=\<close>; \<open>format_f\<close> is \<open>%f\<close>. A theorem with \<open>L\<close> free holds for every such
  record; what it needs of Go is a hypothesis on \<open>L\<close>. The record \<open>go_float64\<close> further
  down is one instance, on which closed theorems are evaluated.
\<close>

datatype NumError = ErrSyntax | ErrRange

record 'f float64_ops =
  ParseFloat :: "string \<Rightarrow> 'f \<times> NumError option"
  fzero :: 'f
  fadd :: "'f \<Rightarrow> 'f \<Rightarrow> 'f"
  fsub :: "'f \<Rightarrow> 'f \<Rightarrow> 'f"
  fmul :: "'f \<Rightarrow> 'f \<Rightarrow> 'f"
  fquo :: "'f \<Rightarrow> 'f \<Rightarrow> 'f"
  format_f :: "'f \<Rightarrow> string"

section \<open>The parser\<close>

text \<open>
  The struct \<open>Parser\<close> has the fields \<open>tokens\<close>, \<open>current\<close> and \<open>pos\<close>. The field
  \<open>stdout\<close> is added for the effect of \<open>fmt.Printf\<close>: the lines written so far, oldest
  first, each without its final newline. (The prompt that \<open>main\<close> prints before it reads
  the line is not recorded.)
\<close>

record Parser =
  tokens :: "Token list"
  current :: Token
  pos :: nat
  stdout :: "string list"

definition NewParser :: "Token list \<Rightarrow> Parser" where
  "NewParser toks = \<lparr>tokens = toks, current = Token_zero, pos = 0, stdout = []\<rparr>"

definition advance :: "Parser \<Rightarrow> Parser" where
  "advance p =
     (if pos p < length (tokens p)
      then p\<lparr>current := tokens p ! pos p, pos := pos p + 1\<rparr>
      else p\<lparr>current := \<lparr>Kind = TokenInvalid, Value = []\<rparr>\<rparr>)"

definition error :: "string \<Rightarrow> Parser \<Rightarrow> Parser" where
  "error message p = p\<lparr>stdout := stdout p @ [''Parse error: '' @ message]\<rparr>"

definition factor :: "'f float64_ops \<Rightarrow> Parser \<Rightarrow> 'f \<times> Parser" where
  "factor L p =
     (if Kind (current p) = TokenNumber then
        (fst (ParseFloat L (Value (current p))), advance p)
      else if Kind (current p) = TokenIdentifier then
        (fzero L, error ''Variable not supported'' p)
      else (fzero L, error ''Invalid expression'' p))"

text \<open>
  \<open>budget\<close> bounds the iterations left in the loops of \<open>term\<close> and \<open>expression\<close>: an
  iteration needs a current token of kind \<open>TokenOperator\<close> and calls \<open>advance\<close>, which
  either moves \<open>pos\<close> forward or, at the end of the tokens, makes the current token the
  \<open>TokenInvalid\<close> sentinel.
\<close>

definition budget :: "Parser \<Rightarrow> nat" where
  "budget p = 2 * (length (tokens p) - pos p) + (if Kind (current p) = TokenOperator then 1 else 0)"

lemma budget_advance: "budget (advance p) \<le> budget p"
  by (auto simp: budget_def advance_def)

lemma budget_advance_Operator: "Kind (current p) = TokenOperator \<Longrightarrow> budget (advance p) < budget p"
  by (auto simp: budget_def advance_def)

lemma budget_factor: "budget (snd (factor L p)) \<le> budget p"
  using budget_advance [of p] by (auto simp: factor_def error_def budget_def)

lemma budget_step:
  assumes "Kind (current p) = TokenOperator" and "(f, p2) = factor L (advance p)"
  shows "budget p2 < budget p"
proof -
  have "budget p2 \<le> budget (advance p)"
    using budget_factor [of L "advance p"] assms(2) [symmetric] by simp
  with budget_advance_Operator [OF assms(1)] show ?thesis
    by simp
qed

text \<open>
  The \<open>for\<close> loop of \<open>term\<close>. The \<open>switch\<close> on the operator has no \<open>default\<close>: another
  text would leave \<open>result\<close> as it is.
\<close>

function term_loop :: "'f float64_ops \<Rightarrow> 'f \<Rightarrow> Parser \<Rightarrow> 'f \<times> Parser" where
  "term_loop L result p =
     (if Kind (current p) = TokenOperator \<and> (Value (current p) = ''*'' \<or> Value (current p) = ''/'')
      then
        (let operator = Value (current p);
             p1 = advance p;
             (f, p2) = factor L p1
         in term_loop L
              (if operator = ''*'' then fmul L result f
               else if operator = ''/'' then fquo L result f
               else result)
              p2)
      else (result, p))"
  by pat_completeness auto
termination
  by (relation "measure (\<lambda>(L, r, p). budget p)") (auto intro: budget_step)


declare term_loop.simps [simp del]

definition "term" :: "'f float64_ops \<Rightarrow> Parser \<Rightarrow> 'f \<times> Parser" where
  "term L p = (let (result, p1) = factor L p in term_loop L result p1)"

lemma budget_term_loop: "budget (snd (term_loop L result p)) \<le> budget p"
proof (induction L result p rule: term_loop.induct)
  case (1 L result p)
  show ?case
  proof (cases "Kind (current p) = TokenOperator \<and>
      (Value (current p) = ''*'' \<or> Value (current p) = ''/'')")
    case True
    obtain f p2 where f: "factor L (advance p) = (f, p2)"
      by (cases "factor L (advance p)")
    have "budget p2 < budget p"
      using True f by (intro budget_step [of p f p2 L]) simp_all
    moreover have "budget (snd (term_loop L
        (if Value (current p) = ''*'' then fmul L result f
         else if Value (current p) = ''/'' then fquo L result f else result) p2)) \<le> budget p2"
      using 1 [OF True refl refl f [symmetric] refl] by simp
    ultimately show ?thesis
      using True f by (subst term_loop.simps) (simp add: Let_def)
  next
    case False
    then show ?thesis
      by (subst term_loop.simps) auto
  qed
qed

lemma budget_term: "budget (snd (term L p)) \<le> budget p"
proof -
  obtain r p1 where f: "factor L p = (r, p1)"
    by (cases "factor L p")
  have "budget (snd (term_loop L r p1)) \<le> budget p1"
    by (rule budget_term_loop)
  also have "budget p1 \<le> budget p"
    using budget_factor [of L p] f by simp
  finally show ?thesis
    using f by (simp add: term_def)
qed

lemma budget_step_term:
  assumes "Kind (current p) = TokenOperator" and "(t, p2) = term L (advance p)"
  shows "budget p2 < budget p"
proof -
  have "budget p2 \<le> budget (advance p)"
    using budget_term [of L "advance p"] assms(2) [symmetric] by simp
  with budget_advance_Operator [OF assms(1)] show ?thesis
    by simp
qed

function expression_loop :: "'f float64_ops \<Rightarrow> 'f \<Rightarrow> Parser \<Rightarrow> 'f \<times> Parser" where
  "expression_loop L result p =
     (if Kind (current p) = TokenOperator \<and> (Value (current p) = ''+'' \<or> Value (current p) = ''-'')
      then
        (let operator = Value (current p);
             p1 = advance p;
             (t, p2) = term L p1
         in expression_loop L
              (if operator = ''+'' then fadd L result t
               else if operator = ''-'' then fsub L result t
               else result)
              p2)
      else (result, p))"
  by pat_completeness auto
termination
  by (relation "measure (\<lambda>(L, r, p). budget p)") (auto intro: budget_step_term)

declare expression_loop.simps [simp del]

definition expression :: "'f float64_ops \<Rightarrow> Parser \<Rightarrow> 'f \<times> Parser" where
  "expression L p = (let (result, p1) = term L p in expression_loop L result p1)"

text \<open>The apostrophe, which a string literal of HOL cannot end with.\<close>

definition quote :: char where
  "quote = CHR 0x27"

definition assignmentStatement :: "'f float64_ops \<Rightarrow> Parser \<Rightarrow> Parser" where
  "assignmentStatement L p =
     (let identifier = Value (current p);
          p1 = advance p
      in if Value (current p1) \<noteq> ''='' then error (''Expected '' @ [quote] @ ''='' @ [quote]) p1
         else
           (let p2 = advance p1;
                (val, p3) = expression L p2
            in p3\<lparr>stdout := stdout p3 @ [''Assign '' @ identifier @ '' = '' @ format_f L val]\<rparr>))"

definition statement :: "'f float64_ops \<Rightarrow> Parser \<Rightarrow> Parser" where
  "statement L p =
     (if Kind (current p) = TokenIdentifier then assignmentStatement L p
      else error ''Unexpected token'' p)"

text \<open>
  The loop of \<open>Parse\<close> may run forever: \<open>statement\<close> need not move the cursor. It is a
  partial function, \<open>None\<close> when the loop does not end. \<open>Parse_steps L n p\<close> is the state
  after \<open>n\<close> iterations from \<open>p\<close> (fewer when the loop ends before): it shows what a run
  that does not end has printed so far.
\<close>

partial_function (option) Parse_loop :: "'f float64_ops \<Rightarrow> Parser \<Rightarrow> Parser option" where
  "Parse_loop L p =
     (if Kind (current p) \<noteq> TokenInvalid then Parse_loop L (statement L p) else Some p)"

definition Parse :: "'f float64_ops \<Rightarrow> Parser \<Rightarrow> Parser option" where
  "Parse L p = Parse_loop L (advance p)"

fun Parse_steps :: "'f float64_ops \<Rightarrow> nat \<Rightarrow> Parser \<Rightarrow> Parser" where
  "Parse_steps L 0 p = p"
| "Parse_steps L (Suc n) p =
     (if Kind (current p) \<noteq> TokenInvalid then Parse_steps L n (statement L p) else p)"

section \<open>An instance: binary64\<close>

text \<open>
  \<open>go_float64\<close> is \<open>float64\<close> as IEEE 754 binary64 with rounding to nearest, ties to even:
  a finite value is the rational number it stands for (\<open>Finite 0\<close> is \<open>+0\<close>), and
  \<open>round64\<close> rounds a rational to the nearest value with a mantissa of 53 bits and an
  exponent of at least \<open>-1022\<close>, to an infinity from \<open>2^1024\<close> on. \<open>float64_format_f\<close> is
  \<open>%f\<close>: six digits after the point, rounded to even from the exact value.
  \<open>float64_ParseFloat\<close> is \<open>strconv.ParseFloat(s, 64)\<close>: it accepts what Go accepts
  (decimal and hexadecimal numbers with signs, exponents and underscores, infinities and
  NaN) and returns the nearest value.
\<close>

datatype float64 = Finite rat | NegZero | PosInf | NegInf | NaN

definition pow2 :: "int \<Rightarrow> rat" where
  "pow2 e = (if 0 \<le> e then 2 ^ nat e else 1 / 2 ^ nat (- e))"

definition ilog2 :: "rat \<Rightarrow> int" where
  "ilog2 a = (let (n, d) = quotient_of a; e = bitlen n - bitlen d in if pow2 e \<le> a then e else e - 1)"

definition round_even :: "rat \<Rightarrow> int" where
  "round_even x =
     (let n = \<lfloor>x\<rfloor>; d = x - of_int n in
      if d < 1 / 2 then n else if 1 / 2 < d then n + 1 else if even n then n else n + 1)"

definition round64 :: "rat \<Rightarrow> float64" where
  "round64 q =
     (if q = 0 then Finite 0
      else
        (let a = \<bar>q\<bar>;
             e = max (ilog2 a) (- 1022);
             u = pow2 (e - 52);
             r = of_int (round_even (a / u)) * u
         in if pow2 1024 \<le> r then (if 0 < q then PosInf else NegInf)
            else if r = 0 then (if 0 < q then Finite 0 else NegZero)
            else Finite (if 0 < q then r else - r)))"


fun is_neg :: "float64 \<Rightarrow> bool" where
  "is_neg (Finite q) = (q < 0)"
| "is_neg NegZero = True"
| "is_neg PosInf = False"
| "is_neg NegInf = True"
| "is_neg NaN = False"

fun is_zero :: "float64 \<Rightarrow> bool" where
  "is_zero (Finite q) = (q = 0)"
| "is_zero NegZero = True"
| "is_zero x = False"

fun is_inf :: "float64 \<Rightarrow> bool" where
  "is_inf PosInf = True"
| "is_inf NegInf = True"
| "is_inf x = False"

fun mag :: "float64 \<Rightarrow> rat" where
  "mag (Finite q) = q"
| "mag x = 0"

definition signed_zero :: "bool \<Rightarrow> float64" where
  "signed_zero neg = (if neg then NegZero else Finite 0)"

definition signed_inf :: "bool \<Rightarrow> float64" where
  "signed_inf neg = (if neg then NegInf else PosInf)"

definition float64_add :: "float64 \<Rightarrow> float64 \<Rightarrow> float64" where
  "float64_add x y =
     (if x = NaN \<or> y = NaN then NaN
      else if is_inf x \<and> is_inf y then (if x = y then x else NaN)
      else if is_inf x then x
      else if is_inf y then y
      else if is_zero x \<and> is_zero y then signed_zero (is_neg x \<and> is_neg y)
      else round64 (mag x + mag y))"

fun float64_neg :: "float64 \<Rightarrow> float64" where
  "float64_neg (Finite q) = (if q = 0 then NegZero else Finite (- q))"
| "float64_neg NegZero = Finite 0"
| "float64_neg PosInf = NegInf"
| "float64_neg NegInf = PosInf"
| "float64_neg NaN = NaN"

definition float64_sub :: "float64 \<Rightarrow> float64 \<Rightarrow> float64" where
  "float64_sub x y = float64_add x (float64_neg y)"

definition float64_mul :: "float64 \<Rightarrow> float64 \<Rightarrow> float64" where
  "float64_mul x y =
     (let neg = (is_neg x \<noteq> is_neg y) in
      if x = NaN \<or> y = NaN then NaN
      else if (is_inf x \<and> is_zero y) \<or> (is_zero x \<and> is_inf y) then NaN
      else if is_inf x \<or> is_inf y then signed_inf neg
      else if is_zero x \<or> is_zero y then signed_zero neg
      else round64 (mag x * mag y))"

definition float64_quo :: "float64 \<Rightarrow> float64 \<Rightarrow> float64" where
  "float64_quo x y =
     (let neg = (is_neg x \<noteq> is_neg y) in
      if x = NaN \<or> y = NaN then NaN
      else if (is_inf x \<and> is_inf y) \<or> (is_zero x \<and> is_zero y) then NaN
      else if is_inf x \<or> is_zero y then signed_inf neg
      else if is_inf y \<or> is_zero x then signed_zero neg
      else round64 (mag x / mag y))"

definition digit_char :: "int \<Rightarrow> char" where
  "digit_char d = char_of (48 + d)"

function show_int :: "int \<Rightarrow> string" where
  "show_int n = (if n < 10 then [digit_char n] else show_int (n div 10) @ [digit_char (n mod 10)])"
  by pat_completeness auto
termination
  by (relation "measure nat") auto

declare show_int.simps [simp del]

definition show_fixed6 :: "rat \<Rightarrow> string" where
  "show_fixed6 a =
     (let n = round_even (a * 1000000) in
      show_int (n div 1000000) @ ''.'' @
      map (\<lambda>k. digit_char (n div 10 ^ k mod 10)) [5, 4, 3, 2, 1, 0])"

fun float64_format_f :: "float64 \<Rightarrow> string" where
  "float64_format_f (Finite q) = (if q < 0 then ''-'' @ show_fixed6 (- q) else show_fixed6 q)"
| "float64_format_f NegZero = ''-0.000000''"
| "float64_format_f PosInf = ''+Inf''"
| "float64_format_f NegInf = ''-Inf''"
| "float64_format_f NaN = ''NaN''"

text \<open>
  \<open>strconv.ParseFloat(s, 64)\<close>. \<open>lower\<close> is Go's \<open>c | ('x' - 'X')\<close>: it sets the bit of
  value 32.
\<close>

definition lower :: "char \<Rightarrow> char" where
  "lower c = (let n = (of_char c :: nat) in if n div 32 mod 2 = 1 then c else char_of (n + 32))"

definition hex_letter :: "char \<Rightarrow> bool" where
  "hex_letter c = (let n = (of_char (lower c) :: nat) in 97 \<le> n \<and> n \<le> 102)"

text \<open>
  \<open>special\<close> reads \<open>inf\<close>, \<open>infinity\<close> (with an optional sign) and \<open>nan\<close>, in any case,
  and returns the value and the number of bytes read.
\<close>

definition commonPrefixLenIgnoreCase :: "string \<Rightarrow> string \<Rightarrow> nat" where
  "commonPrefixLenIgnoreCase s prefix =
     length (takeWhile
       (\<lambda>(c, d). (let n = (of_char c :: nat) in if 65 \<le> n \<and> n \<le> 90 then char_of (n + 32) else c) = d)
       (zip s prefix))"

definition special_inf :: "bool \<Rightarrow> nat \<Rightarrow> string \<Rightarrow> (float64 \<times> nat) option" where
  "special_inf neg nsign s =
     (let n = commonPrefixLenIgnoreCase s ''infinity'';
          n = (if 3 < n \<and> n < 8 then 3 else n)
      in if n = 3 \<or> n = 8 then Some (signed_inf neg, nsign + n) else None)"

definition special :: "string \<Rightarrow> (float64 \<times> nat) option" where
  "special s =
     (case s of
        [] \<Rightarrow> None
      | c # cs \<Rightarrow>
          if c = CHR ''+'' \<or> c = CHR ''-'' then special_inf (c = CHR ''-'') 1 cs
          else if c = CHR ''i'' \<or> c = CHR ''I'' then special_inf False 0 s
          else if c = CHR ''n'' \<or> c = CHR ''N'' then
            (if commonPrefixLenIgnoreCase s ''nan'' = 3 then Some (NaN, 3) else None)
          else None)"

text \<open>
  \<open>underscoreOK\<close>: an underscore stands only between digits or between a base prefix and a
  digit. \<open>saw\<close> is the last byte seen: \<open>^\<close> at the start, \<open>0\<close> for a digit, \<open>_\<close>, or
  \<open>!\<close> for anything else.
\<close>

fun underscoreOK_loop :: "bool \<Rightarrow> char \<Rightarrow> string \<Rightarrow> bool" where
  "underscoreOK_loop hex saw [] = (saw \<noteq> CHR ''_'')"
| "underscoreOK_loop hex saw (c # cs) =
     (if IsDigit c \<or> (hex \<and> hex_letter c) then underscoreOK_loop hex CHR ''0'' cs
      else if c = CHR ''_'' then (if saw \<noteq> CHR ''0'' then False else underscoreOK_loop hex CHR ''_'' cs)
      else if saw = CHR ''_'' then False
      else underscoreOK_loop hex CHR ''!'' cs)"

definition underscoreOK :: "string \<Rightarrow> bool" where
  "underscoreOK s =
     (let s = (if 1 \<le> length s \<and> (hd s = CHR ''-'' \<or> hd s = CHR ''+'') then tl s else s);
          prefix = (2 \<le> length s \<and> hd s = CHR ''0'' \<and>
            (lower (s ! 1) = CHR ''b'' \<or> lower (s ! 1) = CHR ''o'' \<or> lower (s ! 1) = CHR ''x''))
      in if prefix then underscoreOK_loop (lower (s ! 1) = CHR ''x'') CHR ''0'' (drop 2 s)
         else underscoreOK_loop False CHR ''^'' s)"

text \<open>
  \<open>readFloat\<close>: an optional sign, an optional \<open>0x\<close>, the digits of the mantissa with at
  most one dot, and an exponent (\<open>e\<close>, optional, for a decimal mantissa; \<open>p\<close>, required,
  for a hexadecimal one). Go keeps the first digits of the mantissa and whether it dropped
  a non-zero one, which is enough to round; here \<open>digits\<close> is the whole mantissa without
  its dot, as an integer, and \<open>after_dot\<close> the number of its digits after the dot. An
  exponent that has reached 10000 ignores further digits, as in Go. \<open>readFloat\<close> returns
  the sign and the exact value when the whole text is a number.
\<close>

record mantissa =
  sawdot :: bool
  sawdigits :: bool
  underscores :: bool
  digits :: int
  after_dot :: nat

fun readMantissa :: "bool \<Rightarrow> mantissa \<Rightarrow> string \<Rightarrow> mantissa \<times> string" where
  "readMantissa hex m [] = (m, [])"
| "readMantissa hex m (c # cs) =
     (if c = CHR ''_'' then readMantissa hex (m\<lparr>underscores := True\<rparr>) cs
      else if c = CHR ''.'' then
        (if sawdot m then (m, c # cs) else readMantissa hex (m\<lparr>sawdot := True\<rparr>) cs)
      else if IsDigit c then
        readMantissa hex
          (m\<lparr>sawdigits := True,
             digits := digits m * (if hex then 16 else 10) + (of_char c - 48),
             after_dot := (if sawdot m then after_dot m + 1 else after_dot m)\<rparr>) cs
      else if hex \<and> hex_letter c then
        readMantissa hex
          (m\<lparr>sawdigits := True,
             digits := digits m * 16 + (of_char (lower c) - 97 + 10),
             after_dot := (if sawdot m then after_dot m + 1 else after_dot m)\<rparr>) cs
      else (m, c # cs))"

definition exponent_value :: "string \<Rightarrow> int" where
  "exponent_value ds =
     foldl (\<lambda>e c. if c = CHR ''_'' then e else if e < 10000 then e * 10 + (of_char c - 48) else e) 0 ds"

definition readExponent :: "bool \<Rightarrow> string \<Rightarrow> (int \<times> bool \<times> string) option" where
  "readExponent hex rest =
     (if rest \<noteq> [] \<and> lower (hd rest) = (if hex then CHR ''p'' else CHR ''e'') then
        (let r = tl rest in
         if r = [] then None
         else
           (let esign = (if hd r = CHR ''-'' then - 1 else 1);
                r = (if hd r = CHR ''+'' \<or> hd r = CHR ''-'' then tl r else r)
            in if r = [] \<or> \<not> IsDigit (hd r) then None
               else
                 (let ds = takeWhile (\<lambda>c. IsDigit c \<or> c = CHR ''_'') r in
                  Some (esign * exponent_value ds, CHR ''_'' \<in> set ds,
                    dropWhile (\<lambda>c. IsDigit c \<or> c = CHR ''_'') r))))
      else if hex then None
      else Some (0, False, rest))"

definition pow10 :: "int \<Rightarrow> rat" where
  "pow10 e = (if 0 \<le> e then 10 ^ nat e else 1 / 10 ^ nat (- e))"

definition readFloat :: "string \<Rightarrow> (bool \<times> rat) option" where
  "readFloat s =
     (let neg = (s \<noteq> [] \<and> hd s = CHR ''-'');
          s1 = (if s \<noteq> [] \<and> (hd s = CHR ''+'' \<or> hd s = CHR ''-'') then tl s else s);
          hex = (2 < length s1 \<and> hd s1 = CHR ''0'' \<and> lower (s1 ! 1) = CHR ''x'');
          (m, rest) = readMantissa hex
            \<lparr>sawdot = False, sawdigits = False, underscores = False, digits = 0, after_dot = 0\<rparr>
            (if hex then drop 2 s1 else s1)
      in if \<not> sawdigits m then None
         else
           (case readExponent hex rest of
              None \<Rightarrow> None
            | Some (e, us, rest2) \<Rightarrow>
                if rest2 \<noteq> [] \<or> ((underscores m \<or> us) \<and> \<not> underscoreOK s) then None
                else Some (neg,
                  if hex then of_int (digits m) / 16 ^ after_dot m * pow2 e
                  else of_int (digits m) / 10 ^ after_dot m * pow10 e)))"

text \<open>
  The result is the nearest value, with \<open>ErrRange\<close> when that is infinite; a text that is
  not a number gives zero and \<open>ErrSyntax\<close>.
\<close>

definition float64_ParseFloat :: "string \<Rightarrow> float64 \<times> NumError option" where
  "float64_ParseFloat s =
     (case special s of
        Some (v, n) \<Rightarrow> if n = length s then (v, None) else (Finite 0, Some ErrSyntax)
      | None \<Rightarrow>
          (case readFloat s of
             None \<Rightarrow> (Finite 0, Some ErrSyntax)
           | Some (neg, q) \<Rightarrow>
               (let v = (if q = 0 then signed_zero neg else round64 (if neg then - q else q)) in
                (v, if is_inf v then Some ErrRange else None))))"

definition go_float64 :: "float64 float64_ops" where
  "go_float64 =
     \<lparr>ParseFloat = float64_ParseFloat, fzero = Finite 0, fadd = float64_add, fsub = float64_sub,
      fmul = float64_mul, fquo = float64_quo, format_f = float64_format_f\<rparr>"

section \<open>The program\<close>

text \<open>
  \<open>main\<close> scans the line and parses the tokens. \<open>None\<close>: the program does not return.
\<close>

definition main :: "'f float64_ops \<Rightarrow> string \<Rightarrow> Parser option" where
  "main L code = (case tokenize code of None \<Rightarrow> None | Some toks \<Rightarrow> Parse L (NewParser toks))"

declare Parse_loop.simps [code]

section \<open>Properties of the parser\<close>


subsection \<open>Facts about the cursor\<close>

lemma advance_stdout: "stdout (advance p) = stdout p"
  by (simp add: advance_def)

lemma advance_tokens: "tokens (advance p) = tokens p"
  by (simp add: advance_def)

lemma advance_current:
  "current (advance p) \<in> set (tokens p) \<or> current (advance p) = Token_zero"
  by (simp add: advance_def Token_zero_def)

lemma statement_not_identifier:
  "Kind (current p) \<noteq> TokenIdentifier \<Longrightarrow>
   statement L p = p\<lparr>stdout := stdout p @ [''Parse error: Unexpected token'']\<rparr>"
  by (simp add: statement_def error_def)

subsection \<open>A statement that does not start with an identifier\<close>

lemma Parse_steps_stuck:
  assumes "Kind (current p) \<noteq> TokenIdentifier" and "Kind (current p) \<noteq> TokenInvalid"
  shows "Parse_steps L n p = p\<lparr>stdout := stdout p @ replicate n ''Parse error: Unexpected token''\<rparr>"
  using assms
proof (induction n arbitrary: p)
  case 0
  show ?case by simp
next
  case (Suc n)
  let ?q = "p\<lparr>stdout := stdout p @ [''Parse error: Unexpected token'']\<rparr>"
  have "Parse_steps L (Suc n) p = Parse_steps L n ?q"
    using Suc.prems by (simp add: statement_not_identifier)
  also have "\<dots> = ?q\<lparr>stdout := stdout ?q @ replicate n ''Parse error: Unexpected token''\<rparr>"
    using Suc.prems by (intro Suc.IH) simp_all
  finally show ?case
    by (simp add: replicate_app_Cons_same)
qed

lemma Parse_loop_Some_start:
  assumes "Parse_loop L p = Some r"
  shows "Kind (current p) = TokenIdentifier \<or> Kind (current p) = TokenInvalid"
proof (rule Parse_loop.raw_induct
    [where P = "\<lambda>L p r. Kind (current p) = TokenIdentifier \<or> Kind (current p) = TokenInvalid",
      OF _ assms])
  fix loop :: "'a float64_ops \<Rightarrow> Parser \<Rightarrow> Parser option" and L p r
  assume ih: "\<And>L p r. loop L p = Some r \<Longrightarrow>
      Kind (current p) = TokenIdentifier \<or> Kind (current p) = TokenInvalid"
    and body: "(if Kind (current p) \<noteq> TokenInvalid then loop L (statement L p) else Some p) = Some r"
  show "Kind (current p) = TokenIdentifier \<or> Kind (current p) = TokenInvalid"
  proof (rule ccontr)
    assume n: "\<not> (Kind (current p) = TokenIdentifier \<or> Kind (current p) = TokenInvalid)"
    then have s: "statement L p = p\<lparr>stdout := stdout p @ [''Parse error: Unexpected token'']\<rparr>"
      by (simp add: statement_not_identifier)
    from n body have "loop L (statement L p) = Some r"
      by simp
    from ih [OF this] n s show False
      by simp
  qed
qed

lemma Parse_loop_stuck:
  assumes "Kind (current p) \<noteq> TokenIdentifier" and "Kind (current p) \<noteq> TokenInvalid"
  shows "Parse_loop L p = None"
proof (cases "Parse_loop L p")
  case None
  then show ?thesis .
next
  case (Some r)
  from Parse_loop_Some_start [OF this] assms show ?thesis
    by simp
qed

text \<open>When the loop ends after \<open>n\<close> iterations, \<open>Parse_loop\<close> returns the state reached.\<close>

lemma Parse_loop_steps:
  "Kind (current (Parse_steps L n p)) = TokenInvalid \<Longrightarrow> Parse_loop L p = Some (Parse_steps L n p)"
proof (induction n arbitrary: p)
  case 0
  then show ?case
    by (subst Parse_loop.simps) simp
next
  case (Suc n)
  show ?case
  proof (cases "Kind (current p) \<noteq> TokenInvalid")
    case True
    with Suc.prems have "Kind (current (Parse_steps L n (statement L p))) = TokenInvalid"
      by simp
    from Suc.IH [OF this] True show ?thesis
      by (subst Parse_loop.simps) simp
  next
    case False
    then show ?thesis
      by (subst Parse_loop.simps) simp
  qed
qed

text \<open>
  The states \<open>Parse_steps L n\<close> are the states that the loop of \<open>Parse\<close> passes through:
  the loop from \<open>p\<close> is the loop from the state after \<open>n\<close> iterations, and so is the run of
  \<open>main\<close>.
\<close>

lemma Parse_loop_unroll: "Parse_loop L p = Parse_loop L (Parse_steps L n p)"
proof (induction n arbitrary: p)
  case 0
  show ?case by simp
next
  case (Suc n)
  show ?case
  proof (cases "Kind (current p) \<noteq> TokenInvalid")
    case True
    then have "Parse_loop L p = Parse_loop L (statement L p)"
      by (subst Parse_loop.simps) simp
    also have "\<dots> = Parse_loop L (Parse_steps L n (statement L p))"
      by (rule Suc.IH)
    finally show ?thesis
      using True by simp
  next
    case False
    then show ?thesis by simp
  qed
qed

lemma main_unroll:
  "tokenize code = Some ts \<Longrightarrow>
   main L code = Parse_loop L (Parse_steps L n (advance (NewParser ts)))"
  using Parse_loop_unroll [of L "advance (NewParser ts)" n] by (simp add: main_def Parse_def)

lemma main_returns:
  assumes "tokenize code = Some ts"
    and "Kind (current (Parse_steps L n (advance (NewParser ts)))) = TokenInvalid"
  shows "main L code = Some (Parse_steps L n (advance (NewParser ts)))"
  using assms Parse_loop_steps [of L n "advance (NewParser ts)"] by (simp add: main_def Parse_def)

subsection \<open>Tokens without operators\<close>

lemma factor_current:
  assumes "Kind (current p) \<noteq> TokenOperator" and "\<forall>t \<in> set (tokens p). Kind t \<noteq> TokenOperator"
  shows "Kind (current (snd (factor L p))) \<noteq> TokenOperator \<and> tokens (snd (factor L p)) = tokens p"
  using assms advance_current [of p]
  by (auto simp: factor_def error_def advance_tokens Token_zero_def)

lemma term_loop_skip: "Kind (current p) \<noteq> TokenOperator \<Longrightarrow> term_loop L r p = (r, p)"
  by (subst term_loop.simps) simp

lemma expression_loop_skip: "Kind (current p) \<noteq> TokenOperator \<Longrightarrow> expression_loop L r p = (r, p)"
  by (subst expression_loop.simps) simp

lemma term_no_operator:
  assumes "Kind (current p) \<noteq> TokenOperator" and "\<forall>t \<in> set (tokens p). Kind t \<noteq> TokenOperator"
  shows "term L p = factor L p"
proof -
  obtain r p1 where f: "factor L p = (r, p1)"
    by (cases "factor L p")
  with factor_current [OF assms, of L] have "Kind (current p1) \<noteq> TokenOperator"
    by simp
  with f show ?thesis
    by (simp add: term_def term_loop_skip)
qed

lemma expression_no_operator:
  assumes "Kind (current p) \<noteq> TokenOperator" and "\<forall>t \<in> set (tokens p). Kind t \<noteq> TokenOperator"
  shows "expression L p = term L p"
proof -
  obtain r p1 where f: "factor L p = (r, p1)"
    by (cases "factor L p")
  with factor_current [OF assms, of L] have "Kind (current p1) \<noteq> TokenOperator"
    by simp
  with f term_no_operator [OF assms, of L] show ?thesis
    by (simp add: expression_def expression_loop_skip)
qed

subsection \<open>The current token comes from the tokens\<close>

text \<open>
  \<open>cursor_ok\<close>: the current token is a token of the sequence or \<open>Token{}\<close>, which is also
  the sentinel that \<open>advance\<close> sets at the end. It holds when \<open>Parse\<close> enters its loop and
  every function of the parser keeps it, and keeps the sequence.
\<close>

definition cursor_ok :: "Parser \<Rightarrow> bool" where
  "cursor_ok p = (current p \<in> set (tokens p) \<or> current p = Token_zero)"

lemma cursor_ok_advance: "cursor_ok (advance p) \<and> tokens (advance p) = tokens p"
  by (simp add: cursor_ok_def advance_def Token_zero_def)

lemma cursor_ok_error: "cursor_ok (error m p) = cursor_ok p \<and> tokens (error m p) = tokens p"
  by (simp add: cursor_ok_def error_def)

lemma cursor_ok_factor:
  "cursor_ok p \<Longrightarrow> cursor_ok (snd (factor L p)) \<and> tokens (snd (factor L p)) = tokens p"
  by (simp add: factor_def cursor_ok_advance cursor_ok_error)

lemma cursor_ok_term_loop:
  "cursor_ok p \<Longrightarrow> cursor_ok (snd (term_loop L r p)) \<and> tokens (snd (term_loop L r p)) = tokens p"
proof (induction L r p rule: term_loop.induct)
  case (1 L result p)
  show ?case
  proof (cases "Kind (current p) = TokenOperator \<and>
      (Value (current p) = ''*'' \<or> Value (current p) = ''/'')")
    case True
    obtain f p2 where f: "factor L (advance p) = (f, p2)"
      by (cases "factor L (advance p)")
    have p2: "cursor_ok p2 \<and> tokens p2 = tokens p"
      using cursor_ok_factor [of "advance p" L] cursor_ok_advance [of p] f by simp
    have "cursor_ok (snd (term_loop L
        (if Value (current p) = ''*'' then fmul L result f
         else if Value (current p) = ''/'' then fquo L result f else result) p2)) \<and>
      tokens (snd (term_loop L
        (if Value (current p) = ''*'' then fmul L result f
         else if Value (current p) = ''/'' then fquo L result f else result) p2)) = tokens p2"
      using 1(1) [OF True refl refl f [symmetric] refl] p2 by simp
    with p2 True f show ?thesis
      by (subst (1 2) term_loop.simps) (simp add: Let_def)
  next
    case False
    with 1(2) show ?thesis
      by (subst (1 2) term_loop.simps) auto
  qed
qed

lemma cursor_ok_term:
  assumes "cursor_ok p"
  shows "cursor_ok (snd (term L p)) \<and> tokens (snd (term L p)) = tokens p"
proof -
  obtain r p1 where f: "factor L p = (r, p1)"
    by (cases "factor L p")
  with cursor_ok_factor [OF assms, of L] have "cursor_ok p1 \<and> tokens p1 = tokens p"
    by simp
  with cursor_ok_term_loop [of p1 L r] f show ?thesis
    by (simp add: term_def)
qed

lemma cursor_ok_expression_loop:
  "cursor_ok p \<Longrightarrow>
   cursor_ok (snd (expression_loop L r p)) \<and> tokens (snd (expression_loop L r p)) = tokens p"
proof (induction L r p rule: expression_loop.induct)
  case (1 L result p)
  show ?case
  proof (cases "Kind (current p) = TokenOperator \<and>
      (Value (current p) = ''+'' \<or> Value (current p) = ''-'')")
    case True
    obtain t p2 where t: "term L (advance p) = (t, p2)"
      by (cases "term L (advance p)")
    have p2: "cursor_ok p2 \<and> tokens p2 = tokens p"
      using cursor_ok_term [of "advance p" L] cursor_ok_advance [of p] t by simp
    have "cursor_ok (snd (expression_loop L
        (if Value (current p) = ''+'' then fadd L result t
         else if Value (current p) = ''-'' then fsub L result t else result) p2)) \<and>
      tokens (snd (expression_loop L
        (if Value (current p) = ''+'' then fadd L result t
         else if Value (current p) = ''-'' then fsub L result t else result) p2)) = tokens p2"
      using 1(1) [OF True refl refl t [symmetric] refl] p2 by simp
    with p2 True t show ?thesis
      by (subst (1 2) expression_loop.simps) (simp add: Let_def)
  next
    case False
    with 1(2) show ?thesis
      by (subst (1 2) expression_loop.simps) auto
  qed
qed

lemma cursor_ok_expression:
  assumes "cursor_ok p"
  shows "cursor_ok (snd (expression L p)) \<and> tokens (snd (expression L p)) = tokens p"
proof -
  obtain r p1 where t: "term L p = (r, p1)"
    by (cases "term L p")
  with cursor_ok_term [OF assms, of L] have "cursor_ok p1 \<and> tokens p1 = tokens p"
    by simp
  with cursor_ok_expression_loop [of p1 L r] t show ?thesis
    by (simp add: expression_def)
qed

lemma cursor_ok_statement:
  assumes "cursor_ok p"
  shows "cursor_ok (statement L p) \<and> tokens (statement L p) = tokens p"
proof -
  obtain v p3 where e: "expression L (advance (advance p)) = (v, p3)"
    by (cases "expression L (advance (advance p))")
  have "cursor_ok (advance (advance p)) \<and> tokens (advance (advance p)) = tokens p"
    using cursor_ok_advance [of p] cursor_ok_advance [of "advance p"] by simp
  with cursor_ok_expression [of "advance (advance p)" L] e
  have "cursor_ok p3 \<and> tokens p3 = tokens p"
    by simp
  with assms e cursor_ok_advance [of p] show ?thesis
    by (simp add: statement_def assignmentStatement_def Let_def cursor_ok_error)
      (auto simp: cursor_ok_def)
qed

lemma cursor_ok_Parse_steps:
  "cursor_ok p \<Longrightarrow> cursor_ok (Parse_steps L n p) \<and> tokens (Parse_steps L n p) = tokens p"
proof (induction n arbitrary: p)
  case 0
  then show ?case by simp
next
  case (Suc n)
  from cursor_ok_statement [OF Suc.prems, of L] Suc.IH [of "statement L p"] show ?case
    using Suc.prems by simp
qed

lemma cursor_ok_start: "cursor_ok (advance (NewParser ts)) \<and> tokens (advance (NewParser ts)) = ts"
  using cursor_ok_advance [of "NewParser ts"] by (simp add: NewParser_def)

section \<open>The claims about the parser\<close>

subsection \<open>A variable where a number is expected\<close>

text \<open>The lines of the output that report an assignment.\<close>

definition assign_lines :: "string list \<Rightarrow> string list" where
  "assign_lines out = filter (\<lambda>line. take 7 line = ''Assign '') out"

text \<open>The definitions that a run of the parser on given tokens unfolds.\<close>

lemmas parser_defs =
  NewParser_def advance_def statement_def assignmentStatement_def expression_def term_def
  factor_def error_def Token_zero_def term_loop.simps expression_loop.simps

lemma tokenize_z_w:
  "tokenize ''z = w'' =
     Some [\<lparr>Kind = TokenIdentifier, Value = ''z''\<rparr>, \<lparr>Kind = TokenPunctuation, Value = ''=''\<rparr>,
       \<lparr>Kind = TokenIdentifier, Value = ''w''\<rparr>]"
  by code_simp

text \<open>
  Claim C1, as stated: on the input \<open>z = w\<close> the program prints
  \<open>Parse error: Variable not supported\<close> and no \<open>Assign\<close> line. The second part fails:
  \<open>factor\<close> prints the diagnostic and returns the zero value, \<open>expression\<close> returns it, and
  \<open>assignmentStatement\<close> prints the assignment as for any other value.
\<close>

theorem variable_reference_counterexample:
  "map_option (assign_lines \<circ> stdout) (main go_float64 ''z = w'') = Some [''Assign z = 0.000000'']"
  by code_simp

text \<open>
  Claim C1, amended: on the input \<open>z = w\<close> the program prints
  \<open>Parse error: Variable not supported\<close>, then \<open>Assign z = 0.000000\<close> (the variable counts
  as zero), then \<open>Parse error: Expected '='\<close> (the cursor is still on \<open>w\<close>, which the loop
  reads as the start of a second statement), and returns. The hypothesis is that \<open>%f\<close>
  prints the zero value as \<open>0.000000\<close>.
\<close>

theorem variable_reference_output:
  assumes "format_f L (fzero L) = ''0.000000''"
  shows "map_option stdout (main L ''z = w'') =
    Some [''Parse error: Variable not supported'', ''Assign z = 0.000000'',
      ''Parse error: Expected '' @ [quote] @ ''='' @ [quote]]"
  using assms
  by (simp add: main_def tokenize_z_w Parse_def Parse_loop.simps parser_defs)

theorem variable_reference_output_witness:
  "format_f go_float64 (fzero go_float64) = ''0.000000'' \<and>
   map_option stdout (main go_float64 ''z = w'') =
    Some [''Parse error: Variable not supported'', ''Assign z = 0.000000'',
      ''Parse error: Expected '' @ [quote] @ ''='' @ [quote]]"
proof -
  have h: "format_f go_float64 (fzero go_float64) = ''0.000000''"
    by code_simp
  from variable_reference_output [OF h] h show ?thesis
    by simp
qed

subsection \<open>Operators are scanned as punctuation\<close>

lemma tokenize_x_3:
  "tokenize ''x = 3 + 4 * 2'' =
     Some [\<lparr>Kind = TokenIdentifier, Value = ''x''\<rparr>, \<lparr>Kind = TokenPunctuation, Value = ''=''\<rparr>,
       \<lparr>Kind = TokenNumber, Value = ''3''\<rparr>, \<lparr>Kind = TokenPunctuation, Value = ''+''\<rparr>,
       \<lparr>Kind = TokenNumber, Value = ''4''\<rparr>, \<lparr>Kind = TokenPunctuation, Value = ''*''\<rparr>,
       \<lparr>Kind = TokenNumber, Value = ''2''\<rparr>]"
  by code_simp

text \<open>The tokens of \<open>x = 3 + 4 * 2\<close>.\<close>

definition tokens_x_3 :: "Token list" where
  "tokens_x_3 =
     [\<lparr>Kind = TokenIdentifier, Value = ''x''\<rparr>, \<lparr>Kind = TokenPunctuation, Value = ''=''\<rparr>,
      \<lparr>Kind = TokenNumber, Value = ''3''\<rparr>, \<lparr>Kind = TokenPunctuation, Value = ''+''\<rparr>,
      \<lparr>Kind = TokenNumber, Value = ''4''\<rparr>, \<lparr>Kind = TokenPunctuation, Value = ''*''\<rparr>,
      \<lparr>Kind = TokenNumber, Value = ''2''\<rparr>]"

text \<open>
  Claim C2. On the input \<open>x = 3 + 4 * 2\<close> the scanner gives \<open>+\<close> and \<open>*\<close> the kind
  \<open>TokenPunctuation\<close>; \<open>expression\<close>, called with the cursor on \<open>3\<close>, returns the value of
  that number and leaves the cursor on \<open>+\<close>, so neither loop runs; and the program prints
  \<open>Assign x = 3.000000\<close>: it is the first line of the output of the run of \<open>main\<close>. The run
  is the loop of \<open>Parse\<close>, whose state after \<open>n + 1\<close> iterations has printed that line and
  then \<open>n\<close> times \<open>Parse error: Unexpected token\<close>, with the cursor still on \<open>+\<close>; the
  run goes through each of these states (\<open>main\<close> is the loop from any of them, and returns
  the state reached whenever a loop ends) and never returns. The hypotheses are that
  \<open>ParseFloat\<close> reads \<open>3\<close> as a value that \<open>%f\<close> prints as \<open>3.000000\<close>.
\<close>

theorem assign_first_factor_only:
  assumes "fst (ParseFloat L ''3'') = three" and "format_f L three = ''3.000000''"
  shows "tokenize ''x = 3 + 4 * 2'' = Some tokens_x_3 \<and>
    expression L \<lparr>tokens = tokens_x_3, current = \<lparr>Kind = TokenNumber, Value = ''3''\<rparr>, pos = 3,
        stdout = []\<rparr> =
      (three, \<lparr>tokens = tokens_x_3, current = \<lparr>Kind = TokenPunctuation, Value = ''+''\<rparr>, pos = 4,
        stdout = []\<rparr>) \<and>
    Parse_steps L 1 (advance (NewParser tokens_x_3)) =
      \<lparr>tokens = tokens_x_3, current = \<lparr>Kind = TokenPunctuation, Value = ''+''\<rparr>, pos = 4,
        stdout = [''Assign x = 3.000000'']\<rparr> \<and>
    (\<forall>n. Parse_steps L (Suc n) (advance (NewParser tokens_x_3)) =
      \<lparr>tokens = tokens_x_3, current = \<lparr>Kind = TokenPunctuation, Value = ''+''\<rparr>, pos = 4,
        stdout = ''Assign x = 3.000000'' # replicate n ''Parse error: Unexpected token''\<rparr>) \<and>
    (\<forall>n. main L ''x = 3 + 4 * 2'' =
      Parse_loop L (Parse_steps L n (advance (NewParser tokens_x_3)))) \<and>
    (\<forall>code ts n. tokenize code = Some ts \<and>
        Kind (current (Parse_steps L n (advance (NewParser ts)))) = TokenInvalid \<longrightarrow>
      main L code = Some (Parse_steps L n (advance (NewParser ts)))) \<and>
    main L ''x = 3 + 4 * 2'' = None"
proof -
  let ?p0 = "advance (NewParser tokens_x_3)"
  let ?p1 = "\<lparr>tokens = tokens_x_3, current = \<lparr>Kind = TokenPunctuation, Value = ''+''\<rparr>, pos = 4,
      stdout = [''Assign x = 3.000000'']\<rparr>"
  have t: "tokenize ''x = 3 + 4 * 2'' = Some tokens_x_3"
    by (simp add: tokenize_x_3 tokens_x_3_def)
  have e: "expression L \<lparr>tokens = tokens_x_3, current = \<lparr>Kind = TokenNumber, Value = ''3''\<rparr>,
        pos = 3, stdout = []\<rparr> =
      (three, \<lparr>tokens = tokens_x_3, current = \<lparr>Kind = TokenPunctuation, Value = ''+''\<rparr>, pos = 4,
        stdout = []\<rparr>)"
    using assms by (simp add: tokens_x_3_def parser_defs)
  have k0: "Kind (current ?p0) \<noteq> TokenInvalid"
    by (simp add: tokens_x_3_def parser_defs)
  have s1: "statement L ?p0 = ?p1"
    using assms by (simp add: tokens_x_3_def parser_defs)
  have one: "Parse_steps L 1 ?p0 = ?p1"
    using k0 s1 by simp
  have steps: "Parse_steps L (Suc n) ?p0 =
      \<lparr>tokens = tokens_x_3, current = \<lparr>Kind = TokenPunctuation, Value = ''+''\<rparr>, pos = 4,
        stdout = ''Assign x = 3.000000'' # replicate n ''Parse error: Unexpected token''\<rparr>" for n
  proof -
    have "Parse_steps L (Suc n) ?p0 = Parse_steps L n ?p1"
      using k0 s1 by simp
    also have "\<dots> = ?p1\<lparr>stdout := stdout ?p1 @ replicate n ''Parse error: Unexpected token''\<rparr>"
      by (rule Parse_steps_stuck) simp_all
    finally show ?thesis
      by simp
  qed
  have unroll: "main L ''x = 3 + 4 * 2'' = Parse_loop L (Parse_steps L n ?p0)" for n
    by (rule main_unroll [OF t])
  have ret: "main L code = Some (Parse_steps L n (advance (NewParser ts)))"
    if "tokenize code = Some ts \<and> Kind (current (Parse_steps L n (advance (NewParser ts)))) = TokenInvalid"
    for code ts n
    using that main_returns [of code ts L n] by simp
  have "Parse_loop L ?p1 = None"
    by (rule Parse_loop_stuck) simp_all
  with unroll [of 1] one have none: "main L ''x = 3 + 4 * 2'' = None"
    by simp
  from t e one steps unroll ret none show ?thesis
    by blast
qed

theorem assign_first_factor_only_witness:
  "fst (ParseFloat go_float64 ''3'') = Finite 3 \<and> format_f go_float64 (Finite 3) = ''3.000000'' \<and>
   stdout (Parse_steps go_float64 1 (advance (NewParser tokens_x_3))) = [''Assign x = 3.000000''] \<and>
   stdout (Parse_steps go_float64 3 (advance (NewParser tokens_x_3))) =
     [''Assign x = 3.000000'', ''Parse error: Unexpected token'', ''Parse error: Unexpected token''] \<and>
   main go_float64 ''x = 3 + 4 * 2'' =
     Parse_loop go_float64 (Parse_steps go_float64 3 (advance (NewParser tokens_x_3))) \<and>
   main go_float64 ''x = 3 + 4 * 2'' = None"
proof -
  have h1: "fst (ParseFloat go_float64 ''3'') = Finite 3"
    by code_simp
  have h2: "format_f go_float64 (Finite 3) = ''3.000000''"
    by code_simp
  note th = assign_first_factor_only [OF h1 h2]
  from th have a: "Parse_steps go_float64 1 (advance (NewParser tokens_x_3)) =
      \<lparr>tokens = tokens_x_3, current = \<lparr>Kind = TokenPunctuation, Value = ''+''\<rparr>, pos = 4,
        stdout = [''Assign x = 3.000000'']\<rparr>"
    by blast
  from th have "\<forall>n. Parse_steps go_float64 (Suc n) (advance (NewParser tokens_x_3)) =
      \<lparr>tokens = tokens_x_3, current = \<lparr>Kind = TokenPunctuation, Value = ''+''\<rparr>, pos = 4,
        stdout = ''Assign x = 3.000000'' # replicate n ''Parse error: Unexpected token''\<rparr>"
    by blast
  then have b: "Parse_steps go_float64 (Suc 2) (advance (NewParser tokens_x_3)) =
      \<lparr>tokens = tokens_x_3, current = \<lparr>Kind = TokenPunctuation, Value = ''+''\<rparr>, pos = 4,
        stdout = ''Assign x = 3.000000'' # replicate 2 ''Parse error: Unexpected token''\<rparr>"
    by blast
  from th have "\<forall>n. main go_float64 ''x = 3 + 4 * 2'' =
      Parse_loop go_float64 (Parse_steps go_float64 n (advance (NewParser tokens_x_3)))"
    by blast
  then have c: "main go_float64 ''x = 3 + 4 * 2'' =
      Parse_loop go_float64 (Parse_steps go_float64 3 (advance (NewParser tokens_x_3)))"
    by blast
  from th have d: "main go_float64 ''x = 3 + 4 * 2'' = None"
    by blast
  have three: "(3::nat) = Suc 2"
    by simp
  have b3: "stdout (Parse_steps go_float64 3 (advance (NewParser tokens_x_3))) =
      [''Assign x = 3.000000'', ''Parse error: Unexpected token'', ''Parse error: Unexpected token'']"
    unfolding three b by (simp add: numeral_2_eq_2)
  have a1: "stdout (Parse_steps go_float64 1 (advance (NewParser tokens_x_3))) =
      [''Assign x = 3.000000'']"
    unfolding a by simp
  from h1 h2 a1 b3 c d show ?thesis
    by (intro conjI)
qed

subsection \<open>The loop on a token that starts no statement\<close>

text \<open>
  Claim C4. When the current token at the top of the loop of \<open>Parse\<close> is neither an
  Identifier nor the \<open>TokenInvalid\<close> sentinel, \<open>statement\<close> prints
  \<open>Parse error: Unexpected token\<close> and changes nothing else, so the cursor stays where it
  is; after \<open>n\<close> iterations only \<open>n\<close> such lines have been added; and the loop never
  ends. The tokens of \<open>5 = 3\<close> are an instance: the first one is a Number.
\<close>

theorem Parse_unexpected_token_loops:
  assumes "Kind (current p) \<noteq> TokenIdentifier" and "Kind (current p) \<noteq> TokenInvalid"
  shows "statement L p = p\<lparr>stdout := stdout p @ [''Parse error: Unexpected token'']\<rparr> \<and>
    (\<forall>n. Parse_steps L n p =
       p\<lparr>stdout := stdout p @ replicate n ''Parse error: Unexpected token''\<rparr>) \<and>
    Parse_loop L p = None"
  using assms statement_not_identifier [of p L] Parse_steps_stuck [of p L] Parse_loop_stuck [of p L]
  by simp

text \<open>The tokens of \<open>5 = 3\<close>.\<close>

definition tokens_5_3 :: "Token list" where
  "tokens_5_3 =
     [\<lparr>Kind = TokenNumber, Value = ''5''\<rparr>, \<lparr>Kind = TokenPunctuation, Value = ''=''\<rparr>,
      \<lparr>Kind = TokenNumber, Value = ''3''\<rparr>]"

theorem Parse_unexpected_token_loops_witness:
  "tokenize ''5 = 3'' = Some tokens_5_3 \<and>
   Parse go_float64 (NewParser tokens_5_3) = None \<and>
   main go_float64 ''5 = 3'' = None \<and>
   stdout (Parse_steps go_float64 3 (advance (NewParser tokens_5_3))) =
     [''Parse error: Unexpected token'', ''Parse error: Unexpected token'',
      ''Parse error: Unexpected token'']"
proof -
  have t: "tokenize ''5 = 3'' = Some tokens_5_3"
    unfolding tokens_5_3_def by code_simp
  have a: "advance (NewParser tokens_5_3) =
      \<lparr>tokens = tokens_5_3, current = \<lparr>Kind = TokenNumber, Value = ''5''\<rparr>, pos = 1, stdout = []\<rparr>"
    by (simp add: tokens_5_3_def parser_defs)
  have k: "Kind (current (advance (NewParser tokens_5_3))) \<noteq> TokenIdentifier"
    "Kind (current (advance (NewParser tokens_5_3))) \<noteq> TokenInvalid"
    by (simp_all add: a)
  from Parse_unexpected_token_loops [OF k, of go_float64]
  have "Parse_loop go_float64 (advance (NewParser tokens_5_3)) = None"
    and "Parse_steps go_float64 3 (advance (NewParser tokens_5_3)) =
      (advance (NewParser tokens_5_3))\<lparr>stdout := stdout (advance (NewParser tokens_5_3)) @
        replicate 3 ''Parse error: Unexpected token''\<rparr>"
    by blast+
  with t a show ?thesis
    by (simp add: main_def Parse_def numeral_3_eq_3)
qed

subsection \<open>No token of kind Operator\<close>

text \<open>
  Claim C5. For every input the scanner returns tokens of the kinds Number, Identifier
  and Punctuation only, none of kind Operator. When \<open>Parse\<close> runs on these tokens, at
  every iteration of its loop the current token is one of them or the sentinel
  (\<open>cursor_ok\<close>); and in every such state the guards of the loops of \<open>term\<close> and
  \<open>expression\<close> are false when they are first tested, the loops return at once, and
  \<open>expression\<close> returns what its first \<open>term\<close> returns, which is what the first
  \<open>factor\<close> returns.
\<close>

theorem scanner_emits_no_operator:
  "\<exists>ts. tokenize s = Some ts \<and>
     (\<forall>t \<in> set ts. Kind t = TokenNumber \<or> Kind t = TokenIdentifier \<or> Kind t = TokenPunctuation) \<and>
     (\<forall>n. cursor_ok (Parse_steps L n (advance (NewParser ts))) \<and>
          tokens (Parse_steps L n (advance (NewParser ts))) = ts) \<and>
     (\<forall>p. tokens p = ts \<and> cursor_ok p \<longrightarrow>
        Kind (current (snd (factor L p))) \<noteq> TokenOperator \<and>
        term_loop L (fst (factor L p)) (snd (factor L p)) = factor L p \<and>
        term L p = factor L p \<and>
        expression_loop L (fst (term L p)) (snd (term L p)) = term L p \<and>
        expression L p = term L p)"
proof -
  have kinds: "\<forall>t \<in> set (scan s).
      Kind t = TokenNumber \<or> Kind t = TokenIdentifier \<or> Kind t = TokenPunctuation"
    using scan_kinds by blast
  have loops: "Kind (current (snd (factor L p))) \<noteq> TokenOperator \<and>
      term_loop L (fst (factor L p)) (snd (factor L p)) = factor L p \<and>
      term L p = factor L p \<and>
      expression_loop L (fst (term L p)) (snd (term L p)) = term L p \<and>
      expression L p = term L p"
    if p: "tokens p = scan s" "cursor_ok p" for p
  proof -
    from kinds p(1) have all: "\<forall>t \<in> set (tokens p). Kind t \<noteq> TokenOperator"
      by auto
    from kinds p have cur: "Kind (current p) \<noteq> TokenOperator"
      by (auto simp: cursor_ok_def Token_zero_def)
    have f: "Kind (current (snd (factor L p))) \<noteq> TokenOperator"
      using factor_current [OF cur all, of L] by simp
    have t: "term L p = factor L p"
      by (rule term_no_operator [OF cur all])
    have e: "expression L p = term L p"
      by (rule expression_no_operator [OF cur all])
    from f t e show ?thesis
      by (simp add: term_loop_skip expression_loop_skip)
  qed
  have reach: "cursor_ok (Parse_steps L n (advance (NewParser (scan s)))) \<and>
      tokens (Parse_steps L n (advance (NewParser (scan s)))) = scan s" for n
    using cursor_ok_start [of "scan s"]
      cursor_ok_Parse_steps [of "advance (NewParser (scan s))" L n]
    by simp
  show ?thesis
  proof (intro exI conjI)
    show "tokenize s = Some (scan s)"
      by (rule tokenize_scan)
    show "\<forall>t \<in> set (scan s).
        Kind t = TokenNumber \<or> Kind t = TokenIdentifier \<or> Kind t = TokenPunctuation"
      by (rule kinds)
    show "\<forall>n. cursor_ok (Parse_steps L n (advance (NewParser (scan s)))) \<and>
        tokens (Parse_steps L n (advance (NewParser (scan s)))) = scan s"
      using reach by blast
    show "\<forall>p. tokens p = scan s \<and> cursor_ok p \<longrightarrow>
        Kind (current (snd (factor L p))) \<noteq> TokenOperator \<and>
        term_loop L (fst (factor L p)) (snd (factor L p)) = factor L p \<and>
        term L p = factor L p \<and>
        expression_loop L (fst (term L p)) (snd (term L p)) = term L p \<and>
        expression L p = term L p"
      using loops by blast
  qed
qed

theorem scanner_emits_no_operator_witness:
  "tokenize ''x = 3 + 4 * 2'' = Some tokens_x_3 \<and>
   list_all (\<lambda>t. Kind t \<noteq> TokenOperator) tokens_x_3 \<and>
   expression go_float64
       \<lparr>tokens = tokens_x_3, current = \<lparr>Kind = TokenNumber, Value = ''3''\<rparr>, pos = 3, stdout = []\<rparr> =
     term go_float64
       \<lparr>tokens = tokens_x_3, current = \<lparr>Kind = TokenNumber, Value = ''3''\<rparr>, pos = 3, stdout = []\<rparr> \<and>
   fst (term go_float64
       \<lparr>tokens = tokens_x_3, current = \<lparr>Kind = TokenNumber, Value = ''3''\<rparr>, pos = 3, stdout = []\<rparr>) =
     Finite 3"
proof -
  let ?p = "\<lparr>tokens = tokens_x_3, current = \<lparr>Kind = TokenNumber, Value = ''3''\<rparr>, pos = 3,
    stdout = []\<rparr>"
  from scanner_emits_no_operator [of "''x = 3 + 4 * 2''" go_float64]
  have e: "\<forall>p. tokens p = tokens_x_3 \<and> cursor_ok p \<longrightarrow>
      expression go_float64 p = term go_float64 p \<and> term go_float64 p = factor go_float64 p"
    by (simp add: tokenize_x_3 tokens_x_3_def [symmetric])
  have "tokens ?p = tokens_x_3 \<and> cursor_ok ?p"
    by (simp add: tokens_x_3_def cursor_ok_def)
  with e have "expression go_float64 ?p = term go_float64 ?p" "term go_float64 ?p = factor go_float64 ?p"
    by blast+
  moreover have "fst (factor go_float64 ?p) = Finite 3"
    by code_simp
  moreover have "list_all (\<lambda>t. Kind t \<noteq> TokenOperator) tokens_x_3"
    by (simp add: tokens_x_3_def)
  ultimately show ?thesis
    by (simp add: tokenize_x_3 tokens_x_3_def [symmetric])
qed

subsection \<open>A number that does not parse\<close>

text \<open>
  For a text that is not a well-formed literal Go's \<open>strconv.ParseFloat\<close> returns zero
  and an error that wraps \<open>ErrSyntax\<close>. The instance does so as well.
\<close>

lemma go_float64_syntax_zero:
  "snd (ParseFloat go_float64 s) = Some ErrSyntax \<Longrightarrow> fst (ParseFloat go_float64 s) = fzero go_float64"
  by (auto simp: go_float64_def float64_ParseFloat_def Let_def
      split: option.splits prod.splits if_splits)

text \<open>The tokens of \<open>x = 1.2.3\<close>.\<close>

definition tokens_x_1_2_3 :: "Token list" where
  "tokens_x_1_2_3 =
     [\<lparr>Kind = TokenIdentifier, Value = ''x''\<rparr>, \<lparr>Kind = TokenPunctuation, Value = ''=''\<rparr>,
      \<lparr>Kind = TokenNumber, Value = ''1.2.3''\<rparr>]"

text \<open>
  Claim C6. When the current token has kind Number and its text is not a well-formed
  floating-point literal (\<open>ParseFloat\<close> reports \<open>ErrSyntax\<close> on it), \<open>factor\<close> returns
  zero, calls \<open>advance\<close>, and prints nothing: it drops the error. The last hypothesis is
  what Go's \<open>ParseFloat\<close> returns with that error.
\<close>

theorem factor_malformed_number:
  assumes "Kind (current p) = TokenNumber"
    and "snd (ParseFloat L (Value (current p))) = Some ErrSyntax"
    and "\<forall>s. snd (ParseFloat L s) = Some ErrSyntax \<longrightarrow> fst (ParseFloat L s) = fzero L"
  shows "factor L p = (fzero L, advance p) \<and> stdout (snd (factor L p)) = stdout p"
  using assms by (simp add: factor_def advance_stdout)

theorem factor_malformed_number_witness:
  "tokenize ''x = 1.2.3'' = Some tokens_x_1_2_3 \<and>
   snd (ParseFloat go_float64 ''1.2.3'') = Some ErrSyntax \<and>
   factor go_float64
       \<lparr>tokens = tokens_x_1_2_3, current = \<lparr>Kind = TokenNumber, Value = ''1.2.3''\<rparr>, pos = 3,
        stdout = []\<rparr> =
     (Finite 0,
      \<lparr>tokens = tokens_x_1_2_3, current = \<lparr>Kind = TokenInvalid, Value = []\<rparr>, pos = 3,
        stdout = []\<rparr>) \<and>
   map_option stdout (main go_float64 ''x = 1.2.3'') = Some [''Assign x = 0.000000'']"
proof -
  let ?p = "\<lparr>tokens = tokens_x_1_2_3, current = \<lparr>Kind = TokenNumber, Value = ''1.2.3''\<rparr>, pos = 3,
    stdout = []\<rparr>"
  have t: "tokenize ''x = 1.2.3'' = Some tokens_x_1_2_3"
    unfolding tokens_x_1_2_3_def by code_simp
  have h: "snd (ParseFloat go_float64 ''1.2.3'') = Some ErrSyntax"
    by code_simp
  have c: "\<forall>s. snd (ParseFloat go_float64 s) = Some ErrSyntax \<longrightarrow>
      fst (ParseFloat go_float64 s) = fzero go_float64"
    using go_float64_syntax_zero by blast
  have z: "fzero go_float64 = Finite 0"
    by (simp add: go_float64_def)
  have m: "map_option stdout (main go_float64 ''x = 1.2.3'') = Some [''Assign x = 0.000000'']"
    by code_simp
  have "factor go_float64 ?p = (fzero go_float64, advance ?p)"
    using factor_malformed_number [of ?p go_float64, OF _ _ c] h by simp
  with t h z m show ?thesis
    by (simp add: advance_def tokens_x_1_2_3_def)
qed

end
